theory Spec2Isabelle
  imports Complex_Main
begin

section \<open>The connection hub of the chat backend\<close>

text \<open>
  A shallow embedding of \<^verbatim>\<open>backend/internal/websocket/hub.go\<close> (the registry of live
  connections and the three delivery operations), of \<^verbatim>\<open>NewClient\<close>, of the two
  persistence functions the inbound pump calls and of the websocket admission handler.

  A \<^verbatim>\<open>*Client\<close> is an address; the hub state carries the store of the clients it
  points to. A Go channel is its buffer, its capacity and its closed flag. A panic of the
  Go runtime or a send that cannot proceed is a value of type \<open>stop\<close>; a function that can
  panic returns \<open>stop + result\<close>. Log output is not modelled.
\<close>

subsection \<open>Channels\<close>

type_synonym bytes = string

record chan =
  buf :: "bytes list"
  cap :: nat
  closed :: bool

datatype stop =
    SendOnClosedChannel
  | CloseOfClosedChannel
  | BlockedOnSend
  | TypeAssertionFailed

text \<open>\<^verbatim>\<open>make(chan []byte, n)\<close>\<close>

definition make_chan :: "nat \<Rightarrow> chan" where
  "make_chan n = \<lparr>buf = [], cap = n, closed = False\<rparr>"

text \<open>
  \<^verbatim>\<open>select { case ch <- data: ... default: ... }\<close>: a send on a closed channel panics,
  a send on a channel with room appends to the buffer (\<open>Some\<close>), and a full channel takes
  the default branch (\<open>None\<close>).
\<close>

definition try_send :: "chan \<Rightarrow> bytes \<Rightarrow> stop + chan option" where
  "try_send ch data =
     (if closed ch then Inl SendOnClosedChannel
      else if length (buf ch) < cap ch then Inr (Some (ch\<lparr>buf := buf ch @ [data]\<rparr>))
      else Inr None)"

text \<open>\<^verbatim>\<open>ch <- data\<close> outside a select: with a full buffer the sender waits.\<close>

definition blocking_send :: "chan \<Rightarrow> bytes \<Rightarrow> stop + chan" where
  "blocking_send ch data =
     (if closed ch then Inl SendOnClosedChannel
      else if length (buf ch) < cap ch then Inr (ch\<lparr>buf := buf ch @ [data]\<rparr>)
      else Inl BlockedOnSend)"

text \<open>\<^verbatim>\<open>close(ch)\<close>: closing a closed channel panics.\<close>

definition close_chan :: "chan \<Rightarrow> stop + chan" where
  "close_chan ch = (if closed ch then Inl CloseOfClosedChannel else Inr (ch\<lparr>closed := True\<rparr>))"

subsection \<open>The transport\<close>

text \<open>
  The transport (\<^verbatim>\<open>*websocket.Conn\<close>) is the frames written so far and whether it is
  open.
\<close>

datatype frame_type = TextMessage | CloseMessage

record Conn =
  frames :: "(frame_type \<times> bytes) list"
  conn_open :: bool

definition Close :: "Conn \<Rightarrow> Conn" where
  "Close c = c\<lparr>conn_open := False\<rparr>"

text \<open>A transport just upgraded.\<close>

definition conn0 :: Conn where
  "conn0 = \<lparr>frames = [], conn_open = True\<rparr>"

subsection \<open>Clients and the hub\<close>

text \<open>
  The \<^verbatim>\<open>Client\<close> struct without its back pointer to the hub (there is one hub). User
  ids are \<^verbatim>\<open>int64\<close> values; no arithmetic is done on them, so they are integers here.
\<close>

type_synonym cid = nat

record Client =
  conn :: Conn
  send :: chan
  userID :: int
  username :: string

record Hub =
  clients :: "cid \<rightharpoonup> bool"
  userMap :: "int \<rightharpoonup> cid"
  heap :: "cid \<Rightarrow> Client"

text \<open>\<^verbatim>\<open>NewClient\<close>: the outbound queue has room for 256 messages.\<close>

definition NewClient :: "Conn \<Rightarrow> int \<Rightarrow> string \<Rightarrow> Client" where
  "NewClient c uid name = \<lparr>conn = c, send = make_chan 256, userID = uid, username = name\<rparr>"

text \<open>\<^verbatim>\<open>NewHub\<close>: both maps are empty; the store is what has been allocated so far.\<close>

definition NewHub :: "(cid \<Rightarrow> Client) \<Rightarrow> Hub" where
  "NewHub st = \<lparr>clients = Map.empty, userMap = Map.empty, heap = st\<rparr>"

definition set_send :: "Hub \<Rightarrow> cid \<Rightarrow> chan \<Rightarrow> Hub" where
  "set_send h c ch = h\<lparr>heap := (heap h)(c := (heap h c)\<lparr>send := ch\<rparr>)\<rparr>"

text \<open>
  The \<^verbatim>\<open>Unregister\<close> case of \<^verbatim>\<open>Hub.Run\<close>: a client that is in the live set is
  deleted from it, the identity-map entry of its user id is deleted, and its queue is closed.
\<close>

definition Unregister :: "Hub \<Rightarrow> cid \<Rightarrow> stop + Hub" where
  "Unregister h client =
     (case clients h client of
        Some _ \<Rightarrow>
          (let h1 = h\<lparr>clients := (clients h)(client := None)\<rparr>;
               h2 = h1\<lparr>userMap := (userMap h1)(userID (heap h1 client) := None)\<rparr>
           in case close_chan (send (heap h2 client)) of
                Inl p \<Rightarrow> Inl p
              | Inr ch \<Rightarrow> Inr (set_send h2 client ch))
      | None \<Rightarrow> Inr h)"

text \<open>
  The eviction of the \<^verbatim>\<open>default\<close> branches of \<^verbatim>\<open>SendToUser\<close> and of the broadcast
  loop: close the queue, then delete from the live set and from the identity map. There is
  no test that the client is still in the live set.
\<close>

definition evict :: "Hub \<Rightarrow> cid \<Rightarrow> stop + Hub" where
  "evict h client =
     (case close_chan (send (heap h client)) of
        Inl p \<Rightarrow> Inl p
      | Inr ch \<Rightarrow>
          (let h1 = set_send h client ch;
               h2 = h1\<lparr>clients := (clients h1)(client := None)\<rparr>
           in Inr (h2\<lparr>userMap := (userMap h2)(userID (heap h2 client) := None)\<rparr>)))"

text \<open>
  \<^verbatim>\<open>SendToUser\<close>. The result is the returned \<^verbatim>\<open>error\<close> (\<open>None\<close> is \<^verbatim>\<open>nil\<close>) and the
  new hub state. \<open>marshal\<close> stands for \<^verbatim>\<open>json.Marshal\<close>.
\<close>

definition SendToUser ::
  "('m \<Rightarrow> string + bytes) \<Rightarrow> Hub \<Rightarrow> int \<Rightarrow> 'm \<Rightarrow> stop + (string option \<times> Hub)" where
  "SendToUser marshal h uid message =
     (case userMap h uid of
        None \<Rightarrow> Inr (None, h)
      | Some client \<Rightarrow>
          (case marshal message of
             Inl err \<Rightarrow> Inr (Some err, h)
           | Inr data \<Rightarrow>
               (case try_send (send (heap h client)) data of
                  Inl p \<Rightarrow> Inl p
                | Inr (Some ch) \<Rightarrow> Inr (None, set_send h client ch)
                | Inr None \<Rightarrow>
                    (case evict h client of
                       Inl p \<Rightarrow> Inl p
                     | Inr h' \<Rightarrow> Inr (None, h')))))"

text \<open>
  \<^verbatim>\<open>SendToConversation\<close>: the loop over the participant list. A participant without
  an identity-map entry is passed over; a full queue takes the \<^verbatim>\<open>default\<close> branch, which
  only logs and goes on to the next participant.
\<close>

fun send_participants :: "Hub \<Rightarrow> bytes \<Rightarrow> int list \<Rightarrow> stop + Hub" where
  "send_participants h data [] = Inr h"
| "send_participants h data (uid # rest) =
     (case userMap h uid of
        None \<Rightarrow> send_participants h data rest
      | Some client \<Rightarrow>
          (case try_send (send (heap h client)) data of
             Inl p \<Rightarrow> Inl p
           | Inr (Some ch) \<Rightarrow> send_participants (set_send h client ch) data rest
           | Inr None \<Rightarrow> send_participants h data rest))"

definition SendToConversation ::
  "('m \<Rightarrow> string + bytes) \<Rightarrow> Hub \<Rightarrow> int \<Rightarrow> 'm \<Rightarrow> int list \<Rightarrow> stop + (string option \<times> Hub)" where
  "SendToConversation marshal h conversationID message participants =
     (case marshal message of
        Inl err \<Rightarrow> Inr (Some err, h)
      | Inr data \<Rightarrow>
          (case send_participants h data participants of
             Inl p \<Rightarrow> Inl p
           | Inr h' \<Rightarrow> Inr (None, h')))"

subsection \<open>Envelopes\<close>

text \<open>
  What an \<^verbatim>\<open>interface{}\<close> of a payload holds. \<^verbatim>\<open>json.Unmarshal\<close> stores every JSON
  number as a \<^verbatim>\<open>float64\<close>, here \<open>JFloat\<close> with the number it stands for; \<open>JNum\<close> is an
  \<^verbatim>\<open>int64\<close> the program itself puts into a payload.
\<close>

datatype jv =
    JNull
  | JBool bool
  | JNum int
  | JFloat real
  | JStr string
  | JObj "(string \<times> jv) list"

text \<open>
  The conversion \<^verbatim>\<open>int64(f)\<close> of a \<^verbatim>\<open>float64\<close>: the fraction is discarded, towards zero.
  For a value that does not fit, Go leaves the result to the implementation; on amd64 it is
  the least \<^verbatim>\<open>int64\<close>.
\<close>

definition int64_of_float64 :: "real \<Rightarrow> int" where
  "int64_of_float64 f =
     (let t = (if 0 \<le> f then \<lfloor>f\<rfloor> else \<lceil>f\<rceil>)
      in if - (2 ^ 63) \<le> t \<and> t < 2 ^ 63 then t else - (2 ^ 63))"

record Message =
  ID :: int
  ConversationID :: int
  SenderID :: int
  Content :: string
  CreatedAt :: nat

datatype payload = PJson jv | PMessage Message

record WebSocketMessage =
  Type :: string
  Payload :: payload

definition welcomeMsg :: WebSocketMessage where
  "welcomeMsg =
     \<lparr>Type = ''system'',
      Payload = PJson (JObj [(''message'', JStr ''Connected to chat server'')])\<rparr>"

subsection \<open>The hub loop\<close>

text \<open>
  The \<^verbatim>\<open>Register\<close> case of \<^verbatim>\<open>Hub.Run\<close>: the client enters the live set, the
  identity-map entry of its user id is set to it (whatever was there), and the welcome
  message is sent with a blocking send.
\<close>

definition Register ::
  "(WebSocketMessage \<Rightarrow> string + bytes) \<Rightarrow> Hub \<Rightarrow> cid \<Rightarrow> stop + Hub" where
  "Register marshal h client =
     (let h1 = h\<lparr>clients := (clients h)(client \<mapsto> True)\<rparr>;
          h2 = h1\<lparr>userMap := (userMap h1)(userID (heap h1 client) \<mapsto> client)\<rparr>
      in case marshal welcomeMsg of
           Inr data \<Rightarrow>
             (case blocking_send (send (heap h2 client)) data of
                Inl p \<Rightarrow> Inl p
              | Inr ch \<Rightarrow> Inr (set_send h2 client ch))
         | Inl err \<Rightarrow> Inr h2)"

text \<open>
  The \<^verbatim>\<open>Broadcast\<close> case: \<^verbatim>\<open>for client := range h.clients\<close>. Go fixes no iteration
  order, so the order in which the keys are produced is an argument; a key deleted before
  it is reached is not produced. A full queue evicts the client.
\<close>

fun broadcast_loop :: "Hub \<Rightarrow> bytes \<Rightarrow> cid list \<Rightarrow> stop + Hub" where
  "broadcast_loop h message [] = Inr h"
| "broadcast_loop h message (client # rest) =
     (case clients h client of
        None \<Rightarrow> broadcast_loop h message rest
      | Some _ \<Rightarrow>
          (case try_send (send (heap h client)) message of
             Inl p \<Rightarrow> Inl p
           | Inr (Some ch) \<Rightarrow> broadcast_loop (set_send h client ch) message rest
           | Inr None \<Rightarrow>
               (case evict h client of
                  Inl p \<Rightarrow> Inl p
                | Inr h' \<Rightarrow> broadcast_loop h' message rest)))"

text \<open>What the hub loop receives on its three channels.\<close>

datatype hub_event =
    RegisterEv cid
  | UnregisterEv cid
  | BroadcastEv bytes "cid list"

fun Run_step ::
  "(WebSocketMessage \<Rightarrow> string + bytes) \<Rightarrow> Hub \<Rightarrow> hub_event \<Rightarrow> stop + Hub" where
  "Run_step marshal h (RegisterEv client) = Register marshal h client"
| "Run_step marshal h (UnregisterEv client) = Unregister h client"
| "Run_step marshal h (BroadcastEv message order) = broadcast_loop h message order"

text \<open>The loop of \<^verbatim>\<open>Hub.Run\<close> over the events received so far; a panic ends it.\<close>

fun Run ::
  "(WebSocketMessage \<Rightarrow> string + bytes) \<Rightarrow> Hub \<Rightarrow> hub_event list \<Rightarrow> stop + Hub" where
  "Run marshal h [] = Inr h"
| "Run marshal h (ev # evs) =
     (case Run_step marshal h ev of
        Inl p \<Rightarrow> Inl p
      | Inr h' \<Rightarrow> Run marshal h' evs)"

text \<open>
  \<^verbatim>\<open>BroadcastMessage\<close> marshals and sends on the unbuffered \<^verbatim>\<open>Broadcast\<close> channel;
  the send completes when the hub loop takes the message and runs its broadcast case.
\<close>

definition BroadcastMessage ::
  "('m \<Rightarrow> string + bytes) \<Rightarrow> Hub \<Rightarrow> 'm \<Rightarrow> cid list \<Rightarrow> stop + (string option \<times> Hub)" where
  "BroadcastMessage marshal h message order =
     (case marshal message of
        Inl err \<Rightarrow> Inr (Some err, h)
      | Inr data \<Rightarrow>
          (case broadcast_loop h data order of
             Inl p \<Rightarrow> Inl p
           | Inr h' \<Rightarrow> Inr (None, h')))"

subsection \<open>Well-formed hub states\<close>

text \<open>
  Every client of the live set has an open queue, and every identity-map entry points to
  a client of the live set that carries that user id.
\<close>

definition hub_inv :: "Hub \<Rightarrow> bool" where
  "hub_inv h \<longleftrightarrow>
     (\<forall>c. clients h c \<noteq> None \<longrightarrow> \<not> closed (send (heap h c))) \<and>
     (\<forall>u c. userMap h u = Some c \<longrightarrow> clients h c \<noteq> None \<and> userID (heap h c) = u)"

text \<open>How many entries of a participant list resolve to the client \<open>c\<close>.\<close>

definition occurrences :: "Hub \<Rightarrow> cid \<Rightarrow> int list \<Rightarrow> nat" where
  "occurrences h c ps = length (filter (\<lambda>u. userMap h u = Some c) ps)"

definition room :: "chan \<Rightarrow> nat" where
  "room ch = cap ch - length (buf ch)"

text \<open>A queue with no free slot.\<close>

definition full :: "chan \<Rightarrow> bool" where
  "full ch \<longleftrightarrow> \<not> length (buf ch) < cap ch"

text \<open>The state an eviction of \<open>c\<close> leads to when the queue of \<open>c\<close> is open.\<close>

definition evicted :: "Hub \<Rightarrow> cid \<Rightarrow> Hub" where
  "evicted h c =
     h\<lparr>clients := (clients h)(c := None),
       userMap := (userMap h)(userID (heap h c) := None),
       heap := (heap h)(c := (heap h c)\<lparr>send := (send (heap h c))\<lparr>closed := True\<rparr>\<rparr>)\<rparr>"

subsection \<open>A concrete hub state\<close>

text \<open>
  Two registered clients: \<open>0\<close> is user 1 with an empty queue, \<open>1\<close> is user 2 with a
  queue that holds 256 undelivered messages.
\<close>

definition full_chan :: chan where
  "full_chan = \<lparr>buf = replicate 256 ''x'', cap = 256, closed = False\<rparr>"

definition hubAB :: Hub where
  "hubAB =
     \<lparr>clients = [0 \<mapsto> True, 1 \<mapsto> True],
      userMap = [1 \<mapsto> 0, 2 \<mapsto> 1],
      heap = (\<lambda>_. NewClient conn0 0 [])
               (0 := NewClient conn0 1 ''ann'', 1 := (NewClient conn0 2 ''bob'')\<lparr>send := full_chan\<rparr>)\<rparr>"

text \<open>
  The registry as a bijection: besides well-formedness, every client of the live set is
  the one the identity map holds for its user id.
\<close>

definition registry_bijection :: "Hub \<Rightarrow> bool" where
  "registry_bijection h \<longleftrightarrow>
     hub_inv h \<and> (\<forall>c. clients h c \<noteq> None \<longrightarrow> userMap h (userID (heap h c)) = Some c)"

text \<open>Two sessions of user 1, at the addresses \<open>0\<close> and \<open>1\<close>, as \<^verbatim>\<open>NewClient\<close> makes them.\<close>

definition two_sessions :: "cid \<Rightarrow> Client" where
  "two_sessions = (\<lambda>_. NewClient conn0 1 ''ann'')"

definition marshal_const :: "WebSocketMessage \<Rightarrow> string + bytes" where
  "marshal_const m = Inr (Type m)"

subsection \<open>The outbound pump\<close>

text \<open>
  What a write does is the transport's business: \<^verbatim>\<open>WriteMessage\<close> is an argument of the
  pump, returning the error (\<open>None\<close> is \<^verbatim>\<open>nil\<close>) and the new transport.
\<close>

type_synonym writer = "Conn \<Rightarrow> frame_type \<Rightarrow> bytes \<Rightarrow> string option \<times> Conn"

text \<open>
  \<^verbatim>\<open>message, ok := <-ch\<close>: buffered messages come first, also on a closed channel; an
  empty closed channel gives \<^verbatim>\<open>ok = false\<close>; on an empty open channel the receiver waits.
\<close>

datatype recv = Got bytes chan | NotOk | WouldWait

definition receive :: "chan \<Rightarrow> recv" where
  "receive ch =
     (case buf ch of
        m # ms \<Rightarrow> Got m (ch\<lparr>buf := ms\<rparr>)
      | [] \<Rightarrow> if closed ch then NotOk else WouldWait)"

text \<open>
  How a run of \<^verbatim>\<open>WritePump\<close> on the queue as it stands ends: it returns because the
  queue is closed, it returns because a write failed, or it has not returned and waits on
  the empty open queue.
\<close>

datatype pump_end = QueueClosed | WriteFailed string | Waiting

function WritePump :: "writer \<Rightarrow> Conn \<Rightarrow> chan \<Rightarrow> pump_end \<times> Conn \<times> chan" where
  "WritePump WriteMessage cn ch =
     (case receive ch of
        NotOk \<Rightarrow>
          (case WriteMessage cn CloseMessage [] of
             (_, cn1) \<Rightarrow> (QueueClosed, Close cn1, ch))
      | WouldWait \<Rightarrow> (Waiting, cn, ch)
      | Got message ch1 \<Rightarrow>
          (case WriteMessage cn TextMessage message of
             (Some err, cn1) \<Rightarrow> (WriteFailed err, Close cn1, ch1)
           | (None, cn1) \<Rightarrow> WritePump WriteMessage cn1 ch1))"
  by pat_completeness auto
termination
  by (relation "measure (\<lambda>(w, cn, ch). length (buf ch))")
     (auto simp: receive_def split: list.splits if_splits)

text \<open>Every write of the given messages, in order, succeeds.\<close>

fun writes_ok :: "writer \<Rightarrow> Conn \<Rightarrow> bytes list \<Rightarrow> bool" where
  "writes_ok WriteMessage cn [] = True"
| "writes_ok WriteMessage cn (m # ms) =
     (case WriteMessage cn TextMessage m of
        (None, cn1) \<Rightarrow> writes_ok WriteMessage cn1 ms
      | (Some err, cn1) \<Rightarrow> False)"

text \<open>Two transports: one that takes every frame, one whose peer is gone.\<close>

definition write_ok :: writer where
  "write_ok cn t data = (None, cn\<lparr>frames := frames cn @ [(t, data)]\<rparr>)"

definition write_broken :: writer where
  "write_broken cn t data = (Some ''broken pipe'', cn)"

subsection \<open>Persistence\<close>

text \<open>
  The SQL driver is outside the repository. Its two statements are arguments: the insert
  into \<^verbatim>\<open>messages\<close> returns the new database and either the error of \<^verbatim>\<open>Exec\<close> or what
  \<^verbatim>\<open>LastInsertId\<close> gives (an error or the id); the query on
  \<^verbatim>\<open>conversation_participants\<close> returns either the error of \<^verbatim>\<open>Query\<close> or the rows
  (each one what \<^verbatim>\<open>Scan\<close> gives for it) with the final \<^verbatim>\<open>rows.Err()\<close>. Likewise
  \<^verbatim>\<open>json.Marshal\<close>, \<^verbatim>\<open>json.Unmarshal\<close> and the order in which \<^verbatim>\<open>range\<close> produces
  the keys of the live set.
\<close>

record 'db env =
  json_Marshal :: "WebSocketMessage \<Rightarrow> string + bytes"
  json_Unmarshal :: "bytes \<Rightarrow> string + WebSocketMessage"
  exec_insert :: "'db \<Rightarrow> int \<Rightarrow> int \<Rightarrow> string \<Rightarrow> nat \<Rightarrow> 'db \<times> (string + (string + int))"
  query_participants :: "'db \<Rightarrow> int \<Rightarrow> 'db \<times> (string + ((string + int) list \<times> string option))"
  range_clients :: "Hub \<Rightarrow> cid list"

text \<open>\<^verbatim>\<open>DB.SaveMessage\<close>: the message comes back with the generated id.\<close>

definition SaveMessage :: "'db env \<Rightarrow> 'db \<Rightarrow> Message \<Rightarrow> 'db \<times> (string + Message)" where
  "SaveMessage e d message =
     (case exec_insert e d (ConversationID message) (SenderID message) (Content message)
             (CreatedAt message) of
        (d1, Inl err) \<Rightarrow> (d1, Inl (''failed to save message: '' @ err))
      | (d1, Inr (Inl err)) \<Rightarrow> (d1, Inl (''failed to get message ID: '' @ err))
      | (d1, Inr (Inr lastID)) \<Rightarrow> (d1, Inr (message\<lparr>ID := lastID\<rparr>)))"

text \<open>The \<^verbatim>\<open>rows.Next\<close> loop of \<^verbatim>\<open>DB.GetConversationParticipantIDs\<close>.\<close>

fun scan_rows :: "(string + int) list \<Rightarrow> int list \<Rightarrow> string + int list" where
  "scan_rows [] participantIDs = Inr participantIDs"
| "scan_rows (Inl err # rows) participantIDs = Inl (''failed to scan participant ID: '' @ err)"
| "scan_rows (Inr uid # rows) participantIDs = scan_rows rows (participantIDs @ [uid])"

definition GetConversationParticipantIDs ::
  "'db env \<Rightarrow> 'db \<Rightarrow> int \<Rightarrow> 'db \<times> (string + int list)" where
  "GetConversationParticipantIDs e d conversationID =
     (case query_participants e d conversationID of
        (d1, Inl err) \<Rightarrow> (d1, Inl (''failed to get participants: '' @ err))
      | (d1, Inr (rows, rows_err)) \<Rightarrow>
          (case scan_rows rows [] of
             Inl err \<Rightarrow> (d1, Inl err)
           | Inr participantIDs \<Rightarrow>
               (case rows_err of
                  Some err \<Rightarrow> (d1, Inl (''error iterating participants: '' @ err))
                | None \<Rightarrow> (d1, Inr participantIDs))))"

subsection \<open>The inbound pump\<close>

text \<open>
  The state the inbound pump works on: the hub, the database, and the calls it has made to
  persistence and to the hub, in the order it made them.
\<close>

datatype call =
    SaveCall Message
  | ParticipantsCall int
  | ScopedCall int WebSocketMessage "int list"
  | BroadcastCall WebSocketMessage

record 'db World =
  hub :: Hub
  db :: 'db
  calls :: "call list"

text \<open>\<^verbatim>\<open>m[key]\<close> on a decoded object: a missing key gives \<^verbatim>\<open>nil\<close>.\<close>

definition index :: "(string \<times> jv) list \<Rightarrow> string \<Rightarrow> jv" where
  "index m key = (case map_of m key of Some v \<Rightarrow> v | None \<Rightarrow> JNull)"

text \<open>
  The body of the loop of \<^verbatim>\<open>ReadPump\<close> for one frame that was read, handled at time
  \<open>now\<close>. \<open>Inr\<close> is the state with which the loop goes on to the next frame; a failed
  type assertion on the payload fields panics.
\<close>

definition handle_frame ::
  "'db env \<Rightarrow> cid \<Rightarrow> 'db World \<Rightarrow> bytes \<Rightarrow> nat \<Rightarrow> stop + 'db World" where
  "handle_frame e c w message now =
     (case json_Unmarshal e message of
        Inl err \<Rightarrow> Inr w
      | Inr wsMessage \<Rightarrow>
          if Type wsMessage = ''message'' then
            (case Payload wsMessage of
               PJson (JObj msg) \<Rightarrow>
                 (case index msg ''conversation_id'' of
                    JFloat f \<Rightarrow>
                      (case index msg ''content'' of
                         JStr content \<Rightarrow>
                           (let conversationID = int64_of_float64 f;
                                newMessage =
                                  \<lparr>ID = 0, ConversationID = conversationID,
                                   SenderID = userID (heap (hub w) c), Content = content,
                                   CreatedAt = now\<rparr>;
                                w1 = w\<lparr>calls := calls w @ [SaveCall newMessage]\<rparr>
                            in case SaveMessage e (db w1) newMessage of
                                 (d1, Inl err) \<Rightarrow> Inr (w1\<lparr>db := d1\<rparr>)
                               | (d1, Inr savedMessage) \<Rightarrow>
                                   (let response =
                                          \<lparr>Type = ''message'', Payload = PMessage savedMessage\<rparr>;
                                        w2 = w1\<lparr>db := d1,
                                                calls := calls w1 @ [ParticipantsCall conversationID]\<rparr>
                                    in case GetConversationParticipantIDs e (db w2) conversationID of
                                         (d2, Inl err) \<Rightarrow> Inr (w2\<lparr>db := d2\<rparr>)
                                       | (d2, Inr participants) \<Rightarrow>
                                           (let w3 = w2\<lparr>db := d2,
                                                  calls := calls w2 @
                                                    [ScopedCall conversationID response participants]\<rparr>
                                            in case SendToConversation (json_Marshal e) (hub w3)
                                                      conversationID response participants of
                                                 Inl p \<Rightarrow> Inl p
                                               | Inr (err, h) \<Rightarrow> Inr (w3\<lparr>hub := h\<rparr>))))
                       | _ \<Rightarrow> Inl TypeAssertionFailed)
                  | _ \<Rightarrow> Inl TypeAssertionFailed)
             | _ \<Rightarrow> Inr w)
          else if Type wsMessage = ''typing'' then
            (case Payload wsMessage of
               PJson (JObj typing) \<Rightarrow>
                 (let response =
                        \<lparr>Type = ''typing'',
                         Payload = PJson (JObj
                           [(''user_id'', JNum (userID (heap (hub w) c))),
                            (''conversation_id'', index typing ''conversation_id''),
                            (''is_typing'', index typing ''is_typing'')])\<rparr>;
                      w1 = w\<lparr>calls := calls w @ [BroadcastCall response]\<rparr>
                  in case BroadcastMessage (json_Marshal e) (hub w1) response
                            (range_clients e (hub w1)) of
                       Inl p \<Rightarrow> Inl p
                     | Inr (err, h) \<Rightarrow> Inr (w1\<lparr>hub := h\<rparr>))
             | _ \<Rightarrow> Inr w)
          else Inr w)"

text \<open>
  What \<^verbatim>\<open>ReadMessage\<close> gives, one entry per call: an error, or a frame (with the time
  at which it is handled).
\<close>

datatype inbound = ReadError string | Frame bytes nat

datatype pump_state = Exited | Reading

text \<open>
  \<^verbatim>\<open>ReadPump\<close> over what the transport delivers. A read error leaves the loop; the
  deferred function hands the client to the hub's \<^verbatim>\<open>Unregister\<close> case and closes the
  transport. With nothing more to read the pump has not returned.
\<close>

fun ReadPump :: "'db env \<Rightarrow> cid \<Rightarrow> 'db World \<Rightarrow> inbound list \<Rightarrow> stop + (pump_state \<times> 'db World)" where
  "ReadPump e c w [] = Inr (Reading, w)"
| "ReadPump e c w (ReadError err # rest) =
     (case Unregister (hub w) c of
        Inl p \<Rightarrow> Inl p
      | Inr h \<Rightarrow>
          Inr (Exited,
               w\<lparr>hub := h\<lparr>heap := (heap h)(c := (heap h c)\<lparr>conn := Close (conn (heap h c))\<rparr>)\<rparr>\<rparr>))"
| "ReadPump e c w (Frame message now # rest) =
     (case handle_frame e c w message now of
        Inl p \<Rightarrow> Inl p
      | Inr w1 \<Rightarrow> ReadPump e c w1 rest)"

subsection \<open>Direct delivery beside the hub loop\<close>

text \<open>
  \<^verbatim>\<open>SendToUser\<close> runs on the caller's goroutine, the hub loop on its own. The function
  holds the hub's lock in two separate sections: the read lock around the identity-map
  lookup, and the write lock around the eviction. Between them comes the
  \<^verbatim>\<open>select\<close>, with no lock held. An in-flight call is at one of these three places, or
  has returned; one step runs the section it is at.
\<close>

datatype send_pc = AtLookup | AtSelect cid bytes | AtEvict cid | Returned "string option"

definition SendToUser_step ::
  "('m \<Rightarrow> string + bytes) \<Rightarrow> Hub \<Rightarrow> int \<Rightarrow> 'm \<Rightarrow> send_pc \<Rightarrow> stop + (send_pc \<times> Hub)" where
  "SendToUser_step marshal h uid message pc =
     (case pc of
        AtLookup \<Rightarrow>
          (case userMap h uid of
             None \<Rightarrow> Inr (Returned None, h)
           | Some client \<Rightarrow>
               (case marshal message of
                  Inl err \<Rightarrow> Inr (Returned (Some err), h)
                | Inr data \<Rightarrow> Inr (AtSelect client data, h)))
      | AtSelect client data \<Rightarrow>
          (case try_send (send (heap h client)) data of
             Inl p \<Rightarrow> Inl p
           | Inr (Some ch) \<Rightarrow> Inr (Returned None, set_send h client ch)
           | Inr None \<Rightarrow> Inr (AtEvict client, h))
      | AtEvict client \<Rightarrow>
          (case evict h client of
             Inl p \<Rightarrow> Inl p
           | Inr h' \<Rightarrow> Inr (Returned None, h'))
      | Returned err \<Rightarrow> Inr (Returned err, h))"

text \<open>
  A schedule: at each point either the in-flight \<^verbatim>\<open>SendToUser\<close> runs its next section or
  the hub loop handles one event. Each section and each case of the hub loop is atomic
  here, so every run of a schedule is a run the Go program can make.
\<close>

datatype action = Deliver | HubLoop hub_event

fun interleave ::
  "(WebSocketMessage \<Rightarrow> string + bytes) \<Rightarrow> int \<Rightarrow> WebSocketMessage \<Rightarrow> send_pc \<times> Hub \<Rightarrow>
     action list \<Rightarrow> stop + (send_pc \<times> Hub)" where
  "interleave marshal uid message (pc, h) [] = Inr (pc, h)"
| "interleave marshal uid message (pc, h) (Deliver # rest) =
     (case SendToUser_step marshal h uid message pc of
        Inl p \<Rightarrow> Inl p
      | Inr st \<Rightarrow> interleave marshal uid message st rest)"
| "interleave marshal uid message (pc, h) (HubLoop ev # rest) =
     (case Run_step marshal h ev of
        Inl p \<Rightarrow> Inl p
      | Inr h' \<Rightarrow> interleave marshal uid message (pc, h') rest)"

text \<open>A chat envelope to deliver.\<close>

definition msg_hi :: WebSocketMessage where
  "msg_hi = \<lparr>Type = ''message'', Payload = PJson (JStr ''hi'')\<rparr>"

subsection \<open>Admission\<close>

text \<open>
  \<^verbatim>\<open>Handlers.HandleWebSocket\<close>. Of the request the handler reads the \<^verbatim>\<open>auth_token\<close>
  cookie. The JWT library, the user table and the websocket upgrader are outside the
  repository: \<^verbatim>\<open>jwt.ParseWithClaims\<close> (with the handler's key function) gives the token, with
  its \<^verbatim>\<open>Valid\<close> flag and claims, and an error; the row query of \<^verbatim>\<open>GetUserByID\<close> gives an
  error or the user; \<^verbatim>\<open>upgrader.Upgrade\<close> gives an error or the transport.
\<close>

record Request =
  auth_token :: "string option"
  RemoteAddr :: string

datatype jwt_error = TokenMalformed | TokenSignatureInvalid | TokenExpired

record Token =
  Valid :: bool
  Claims :: "(string \<times> jv) list"

record User =
  User_ID :: int
  User_Username :: string
  User_Password :: string
  User_Avatar :: string
  User_CreatedAt :: nat

record 'db adm =
  jwt_ParseWithClaims :: "string \<Rightarrow> Token \<times> jwt_error option"
  query_user :: "'db \<Rightarrow> int \<Rightarrow> string + User"
  Upgrade :: "Request \<Rightarrow> string + Conn"

definition GetUserByID :: "'db adm \<Rightarrow> 'db \<Rightarrow> int \<Rightarrow> string + User" where
  "GetUserByID a d uid =
     (case query_user a d uid of
        Inl err \<Rightarrow> Inl err
      | Inr user \<Rightarrow> Inr user)"

text \<open>
  What the handler answers: an HTTP error with its status code and body, the failure of
  the upgrade (the upgrader has answered), or the switch to the websocket protocol with
  the client that was built and handed to the hub.
\<close>

datatype response = HttpError nat string | UpgradeError string | Switched cid

definition StatusUnauthorized :: nat where
  "StatusUnauthorized = 401"

definition StatusNotFound :: nat where
  "StatusNotFound = 404"

text \<open>
  \<open>fresh\<close> is the address the new \<^verbatim>\<open>Client\<close> gets. The \<^verbatim>\<open>user_id\<close> claim is read with
  the two-valued type assertion to \<^verbatim>\<open>float64\<close> and converted to \<^verbatim>\<open>int64\<close>: a missing or
  non-numeric claim gives 0.
\<close>

definition HandleWebSocket ::
  "'db adm \<Rightarrow> (WebSocketMessage \<Rightarrow> string + bytes) \<Rightarrow> 'db \<Rightarrow> Hub \<Rightarrow> cid \<Rightarrow> Request \<Rightarrow>
     stop + (response \<times> Hub)" where
  "HandleWebSocket a marshal d h fresh r =
     (case auth_token r of
        None \<Rightarrow> Inr (HttpError StatusUnauthorized ''Unauthorized'', h)
      | Some cookie \<Rightarrow>
          (case jwt_ParseWithClaims a cookie of
             (token, err) \<Rightarrow>
               if err \<noteq> None \<or> \<not> Valid token
               then Inr (HttpError StatusUnauthorized ''Unauthorized'', h)
               else
                 (let uid = (case index (Claims token) ''user_id'' of
                              JFloat f \<Rightarrow> int64_of_float64 f
                            | _ \<Rightarrow> 0)
                  in case GetUserByID a d uid of
                       Inl err \<Rightarrow> Inr (HttpError StatusNotFound ''User not found'', h)
                     | Inr user \<Rightarrow>
                         (case Upgrade a r of
                            Inl err \<Rightarrow> Inr (UpgradeError err, h)
                          | Inr cn \<Rightarrow>
                              (let h1 = h\<lparr>heap := (heap h)
                                          (fresh := NewClient cn uid (User_Username user))\<rparr>
                               in case Register marshal h1 fresh of
                                    Inl p \<Rightarrow> Inl p
                                  | Inr h2 \<Rightarrow> Inr (Switched fresh, h2))))))"

text \<open>
  A concrete identity service: the token \<open>''ann''\<close> is valid and names user 1, \<open>''zed''\<close> is
  valid and names user 9, who is not in the user table; \<open>''forged''\<close> has a bad signature and
  \<open>''old''\<close> has expired.
\<close>

definition adm_demo :: "unit adm" where
  "adm_demo =
     \<lparr>jwt_ParseWithClaims = (\<lambda>t.
        if t = ''ann'' then (\<lparr>Valid = True, Claims = [(''user_id'', JFloat 1)]\<rparr>, None)
        else if t = ''zed'' then (\<lparr>Valid = True, Claims = [(''user_id'', JFloat 9)]\<rparr>, None)
        else if t = ''forged'' then (\<lparr>Valid = False, Claims = []\<rparr>, Some TokenSignatureInvalid)
        else if t = ''old'' then (\<lparr>Valid = False, Claims = [(''user_id'', JFloat 1)]\<rparr>, Some TokenExpired)
        else (\<lparr>Valid = False, Claims = []\<rparr>, Some TokenMalformed)),
      query_user = (\<lambda>d uid.
        if uid = 1
        then Inr \<lparr>User_ID = 1, User_Username = ''ann'', User_Password = ''hash'',
                  User_Avatar = [], User_CreatedAt = 0\<rparr>
        else Inl ''sql: no rows in result set''),
      Upgrade = (\<lambda>r. Inr conn0)\<rparr>"

definition request :: "string option \<Rightarrow> Request" where
  "request cookie = \<lparr>auth_token = cookie, RemoteAddr = ''127.0.0.1:5000''\<rparr>"

subsection \<open>A concrete conversation\<close>


definition env_ok :: "(Message list) env" where
  "env_ok =
     \<lparr>json_Marshal = marshal_const,
      json_Unmarshal = (\<lambda>b.
        if b = ''M'' then
          Inr \<lparr>Type = ''message'',
               Payload = PJson (JObj [(''conversation_id'', JFloat 7), (''content'', JStr ''hi'')])\<rparr>
        else if b = ''T'' then
          Inr \<lparr>Type = ''typing'',
               Payload = PJson (JObj [(''conversation_id'', JFloat 7), (''is_typing'', JBool True)])\<rparr>
        else Inl ''invalid character''),
      exec_insert = (\<lambda>d cv sender content created.
        (d @ [\<lparr>ID = int (length d) + 1, ConversationID = cv, SenderID = sender,
               Content = content, CreatedAt = created\<rparr>],
         Inr (Inr (int (length d) + 1)))),
      query_participants = (\<lambda>d cv. (d, Inr (if cv = 7 then [Inr 1, Inr 2] else [], None))),
      range_clients = (\<lambda>h. [0, 1])\<rparr>"



text \<open>The same with the hub in which the queue of user 2 is full.\<close>

definition worldAB :: "(Message list) World" where
  "worldAB = \<lparr>hub = hubAB, db = [], calls = []\<rparr>"

section \<open>Properties\<close>

subsection \<open>Scoped delivery, queue by queue\<close>

lemma set_send_simps [simp]:
  "clients (set_send h c ch) = clients h"
  "userMap (set_send h c ch) = userMap h"
  "heap (set_send h c ch) c' = (if c' = c then (heap h c)\<lparr>send := ch\<rparr> else heap h c')"
  by (simp_all add: set_send_def)

lemma send_participants_maps:
  "send_participants h data ps = Inr h' \<Longrightarrow>
     clients h' = clients h \<and> userMap h' = userMap h \<and>
     (\<forall>c. userID (heap h' c) = userID (heap h c) \<and> username (heap h' c) = username (heap h c) \<and>
          closed (send (heap h' c)) = closed (send (heap h c)) \<and>
          cap (send (heap h' c)) = cap (send (heap h c)))"
proof (induction ps arbitrary: h)
  case Nil then show ?case by simp
next
  case (Cons u ps)
  then show ?case
    by (auto simp: try_send_def split: option.splits if_splits sum.splits)
qed

lemma send_participants_total:
  "\<forall>u c. userMap h u = Some c \<longrightarrow> \<not> closed (send (heap h c)) \<Longrightarrow>
   \<exists>h'. send_participants h data ps = Inr h'"
proof (induction ps arbitrary: h)
  case Nil then show ?case by simp
next
  case (Cons u ps)
  show ?case
  proof (cases "userMap h u")
    case None
    with Cons show ?thesis by simp
  next
    case (Some c)
    with Cons.prems have op: "\<not> closed (send (heap h c))" by blast
    show ?thesis
    proof (cases "length (buf (send (heap h c))) < cap (send (heap h c))")
      case True
      let ?h1 = "set_send h c (send (heap h c)\<lparr>buf := buf (send (heap h c)) @ [data]\<rparr>)"
      have "\<forall>u c'. userMap ?h1 u = Some c' \<longrightarrow> \<not> closed (send (heap ?h1 c'))"
        using Cons.prems op by auto
      from Cons.IH[OF this] show ?thesis using Some op True by (simp add: try_send_def)
    next
      case False
      then show ?thesis using Some op Cons by (simp add: try_send_def)
    qed
  qed
qed

lemma send_participants_buf:
  "send_participants h data ps = Inr h' \<Longrightarrow>
   buf (send (heap h' c)) =
     buf (send (heap h c)) @ replicate (min (room (send (heap h c))) (occurrences h c ps)) data"
proof (induction ps arbitrary: h)
  case Nil then show ?case by (simp add: occurrences_def)
next
  case (Cons u ps)
  show ?case
  proof (cases "userMap h u")
    case None
    with Cons show ?thesis by (simp add: occurrences_def)
  next
    case (Some k)
    show ?thesis
    proof (cases "try_send (send (heap h k)) data")
      case (Inl p) with Cons.prems Some show ?thesis by simp
    next
      case (Inr r)
      show ?thesis
      proof (cases r)
        case None
        with Inr have full: "\<not> length (buf (send (heap h k))) < cap (send (heap h k))"
          by (auto simp: try_send_def split: if_splits)
        from None Inr Some Cons.prems have "send_participants h data ps = Inr h'" by simp
        from Cons.IH[OF this] show ?thesis using Some full
          by (auto simp: occurrences_def room_def)
      next
        case (Some ch)
        with Inr have ch: "ch = send (heap h k)\<lparr>buf := buf (send (heap h k)) @ [data]\<rparr>"
          and rm: "length (buf (send (heap h k))) < cap (send (heap h k))"
          by (auto simp: try_send_def split: if_splits)
        from Some Inr \<open>userMap h u = Some k\<close> Cons.prems
        have "send_participants (set_send h k ch) data ps = Inr h'" by simp
        from Cons.IH[OF this]
        have step: "buf (send (heap h' c)) =
            buf (send (heap (set_send h k ch) c)) @
            replicate (min (room (send (heap (set_send h k ch) c))) (occurrences h c ps)) data"
          by (simp add: occurrences_def)
        show ?thesis
        proof (cases "c = k")
          case True
          have "cap (send (heap h k)) - length (buf (send (heap h k)))
                  = Suc (cap (send (heap h k)) - Suc (length (buf (send (heap h k)))))"
            using rm by arith
          then show ?thesis using step True ch \<open>userMap h u = Some k\<close>
            by (simp add: occurrences_def room_def)
        next
          case False
          then show ?thesis using step \<open>userMap h u = Some k\<close>
            by (simp add: occurrences_def)
        qed
      qed
    qed
  qed
qed

lemma hub_inv_hubAB: "hub_inv hubAB"
  by (auto simp: hub_inv_def hubAB_def NewClient_def make_chan_def full_chan_def split: if_splits)

lemma SendToConversation_effect:
  assumes m: "marshal message = Inr data" and inv: "hub_inv h"
  shows "\<exists>h'. SendToConversation marshal h conv message ps = Inr (None, h') \<and>
           clients h' = clients h \<and> userMap h' = userMap h \<and>
           (\<forall>c. closed (send (heap h' c)) = closed (send (heap h c)) \<and>
                buf (send (heap h' c)) =
                  buf (send (heap h c)) @
                  replicate (min (room (send (heap h c))) (occurrences h c ps)) data)"
proof -
  have "\<forall>u c. userMap h u = Some c \<longrightarrow> \<not> closed (send (heap h c))"
    using inv by (auto simp: hub_inv_def)
  from send_participants_total[OF this]
  obtain h' where r: "send_participants h data ps = Inr h'" by blast
  show ?thesis
    using r m send_participants_maps[OF r] send_participants_buf[OF r]
    by (simp add: SendToConversation_def)
qed

subsection \<open>Eviction and the broadcast loop\<close>

lemma hub_inv_set_send:
  "hub_inv h \<Longrightarrow> closed ch = closed (send (heap h c)) \<Longrightarrow> hub_inv (set_send h c ch)"
  by (auto simp: hub_inv_def)

lemma evict_open:
  "\<not> closed (send (heap h c)) \<Longrightarrow> evict h c = Inr (evicted h c)"
  by (simp add: evict_def evicted_def close_chan_def set_send_def Let_def)

lemma hub_inv_evicted:
  "hub_inv h \<Longrightarrow> hub_inv (evicted h c)"
  by (auto simp: hub_inv_def evicted_def)

lemma try_send_cases:
  "\<not> closed ch \<Longrightarrow>
   try_send ch data = (if full ch then Inr None else Inr (Some (ch\<lparr>buf := buf ch @ [data]\<rparr>)))"
  by (simp add: try_send_def full_def)

lemma broadcast_loop_effect:
  assumes "hub_inv h" and "distinct order"
  shows "\<exists>h'. broadcast_loop h data order = Inr h' \<and> hub_inv h' \<and>
     (\<forall>c. heap h' c =
        (if c \<in> set order \<and> clients h c \<noteq> None
         then (if full (send (heap h c))
               then (heap h c)\<lparr>send := (send (heap h c))\<lparr>closed := True\<rparr>\<rparr>
               else (heap h c)\<lparr>send := (send (heap h c))\<lparr>buf := buf (send (heap h c)) @ [data]\<rparr>\<rparr>)
         else heap h c)) \<and>
     (\<forall>c. clients h' c =
        (if c \<in> set order \<and> full (send (heap h c)) then None else clients h c)) \<and>
     (\<forall>u. userMap h' u =
        (if \<exists>c\<in>set order. clients h c \<noteq> None \<and> full (send (heap h c)) \<and> userID (heap h c) = u
         then None else userMap h u))"
  using assms
proof (induction order arbitrary: h)
  case Nil
  then show ?case by simp
next
  case (Cons k order)
  from Cons.prems have d: "distinct order" and kn: "k \<notin> set order" by auto
  show ?case
  proof (cases "clients h k")
    case None
    from Cons.IH[OF Cons.prems(1) d] obtain h' where
      "broadcast_loop h data order = Inr h'" "hub_inv h'"
      and H: "\<forall>c. heap h' c =
        (if c \<in> set order \<and> clients h c \<noteq> None
         then (if full (send (heap h c))
               then (heap h c)\<lparr>send := (send (heap h c))\<lparr>closed := True\<rparr>\<rparr>
               else (heap h c)\<lparr>send := (send (heap h c))\<lparr>buf := buf (send (heap h c)) @ [data]\<rparr>\<rparr>)
         else heap h c)"
      and C: "\<forall>c. clients h' c =
        (if c \<in> set order \<and> full (send (heap h c)) then None else clients h c)"
      and U: "\<forall>u. userMap h' u =
        (if \<exists>c\<in>set order. clients h c \<noteq> None \<and> full (send (heap h c)) \<and> userID (heap h c) = u
         then None else userMap h u)"
      by blast
    show ?thesis
      apply (rule exI[of _ h'])
      using None \<open>broadcast_loop h data order = Inr h'\<close> \<open>hub_inv h'\<close> H C U
      by auto
  next
    case (Some b)
    with Cons.prems(1) have op: "\<not> closed (send (heap h k))" by (auto simp: hub_inv_def)
    show ?thesis
    proof (cases "full (send (heap h k))")
      case True
      let ?h1 = "evicted h k"
      have i1: "hub_inv ?h1" using Cons.prems(1) by (rule hub_inv_evicted)
      from Cons.IH[OF i1 d] obtain h' where
        r: "broadcast_loop ?h1 data order = Inr h'" and i: "hub_inv h'"
        and H: "\<forall>c. heap h' c =
          (if c \<in> set order \<and> clients ?h1 c \<noteq> None
           then (if full (send (heap ?h1 c))
                 then (heap ?h1 c)\<lparr>send := (send (heap ?h1 c))\<lparr>closed := True\<rparr>\<rparr>
                 else (heap ?h1 c)\<lparr>send := (send (heap ?h1 c))\<lparr>buf := buf (send (heap ?h1 c)) @ [data]\<rparr>\<rparr>)
           else heap ?h1 c)"
        and C: "\<forall>c. clients h' c =
          (if c \<in> set order \<and> full (send (heap ?h1 c)) then None else clients ?h1 c)"
        and U: "\<forall>u. userMap h' u =
          (if \<exists>c\<in>set order. clients ?h1 c \<noteq> None \<and> full (send (heap ?h1 c)) \<and> userID (heap ?h1 c) = u
           then None else userMap ?h1 u)"
        by blast
      have run: "broadcast_loop h data (k # order) = Inr h'"
        using Some op True r by (simp add: try_send_cases evict_open)
      have Hc: "\<forall>c. heap h' c =
        (if c \<in> set (k # order) \<and> clients h c \<noteq> None
         then (if full (send (heap h c))
               then (heap h c)\<lparr>send := (send (heap h c))\<lparr>closed := True\<rparr>\<rparr>
               else (heap h c)\<lparr>send := (send (heap h c))\<lparr>buf := buf (send (heap h c)) @ [data]\<rparr>\<rparr>)
         else heap h c)"
        using H kn Some True by (auto simp: evicted_def)
      have Cc: "\<forall>c. clients h' c =
        (if c \<in> set (k # order) \<and> full (send (heap h c)) then None else clients h c)"
        using C kn Some True by (auto simp: evicted_def)
      have Uc: "\<forall>u. userMap h' u =
        (if \<exists>c\<in>set (k # order). clients h c \<noteq> None \<and> full (send (heap h c)) \<and> userID (heap h c) = u
         then None else userMap h u)"
      proof
        fix u
        have e: "(\<exists>c\<in>set order. clients ?h1 c \<noteq> None \<and> full (send (heap ?h1 c)) \<and> userID (heap ?h1 c) = u)
              = (\<exists>c\<in>set order. clients h c \<noteq> None \<and> full (send (heap h c)) \<and> userID (heap h c) = u)"
          using kn by (auto simp: evicted_def)
        show "userMap h' u =
        (if \<exists>c\<in>set (k # order). clients h c \<noteq> None \<and> full (send (heap h c)) \<and> userID (heap h c) = u
         then None else userMap h u)"
          using U[rule_format, of u] e Some True by (auto simp: evicted_def)
      qed
      show ?thesis using run i Hc Cc Uc by blast
    next
      case False
      let ?ch = "(send (heap h k))\<lparr>buf := buf (send (heap h k)) @ [data]\<rparr>"
      let ?h1 = "set_send h k ?ch"
      have i1: "hub_inv ?h1" using Cons.prems(1) by (rule hub_inv_set_send) simp
      from Cons.IH[OF i1 d] obtain h' where
        r: "broadcast_loop ?h1 data order = Inr h'" and i: "hub_inv h'"
        and H: "\<forall>c. heap h' c =
          (if c \<in> set order \<and> clients ?h1 c \<noteq> None
           then (if full (send (heap ?h1 c))
                 then (heap ?h1 c)\<lparr>send := (send (heap ?h1 c))\<lparr>closed := True\<rparr>\<rparr>
                 else (heap ?h1 c)\<lparr>send := (send (heap ?h1 c))\<lparr>buf := buf (send (heap ?h1 c)) @ [data]\<rparr>\<rparr>)
           else heap ?h1 c)"
        and C: "\<forall>c. clients h' c =
          (if c \<in> set order \<and> full (send (heap ?h1 c)) then None else clients ?h1 c)"
        and U: "\<forall>u. userMap h' u =
          (if \<exists>c\<in>set order. clients ?h1 c \<noteq> None \<and> full (send (heap ?h1 c)) \<and> userID (heap ?h1 c) = u
           then None else userMap ?h1 u)"
        by blast
      have run: "broadcast_loop h data (k # order) = Inr h'"
        using Some op False r by (simp add: try_send_cases)
      have Hc: "\<forall>c. heap h' c =
        (if c \<in> set (k # order) \<and> clients h c \<noteq> None
         then (if full (send (heap h c))
               then (heap h c)\<lparr>send := (send (heap h c))\<lparr>closed := True\<rparr>\<rparr>
               else (heap h c)\<lparr>send := (send (heap h c))\<lparr>buf := buf (send (heap h c)) @ [data]\<rparr>\<rparr>)
         else heap h c)"
        using H kn Some False by auto
      have Cc: "\<forall>c. clients h' c =
        (if c \<in> set (k # order) \<and> full (send (heap h c)) then None else clients h c)"
        using C kn Some False by auto
      have Uc: "\<forall>u. userMap h' u =
        (if \<exists>c\<in>set (k # order). clients h c \<noteq> None \<and> full (send (heap h c)) \<and> userID (heap h c) = u
         then None else userMap h u)"
      proof
        fix u
        have e: "(\<exists>c\<in>set order. clients ?h1 c \<noteq> None \<and> full (send (heap ?h1 c)) \<and> userID (heap ?h1 c) = u)
              = (\<exists>c\<in>set order. clients h c \<noteq> None \<and> full (send (heap h c)) \<and> userID (heap h c) = u)"
          using kn by auto
        show "userMap h' u =
        (if \<exists>c\<in>set (k # order). clients h c \<noteq> None \<and> full (send (heap h c)) \<and> userID (heap h c) = u
         then None else userMap h u)"
          using U[rule_format, of u] e Some False by auto
      qed
      show ?thesis using run i Hc Cc Uc by blast
    qed
  qed
qed

subsection \<open>A full queue under each delivery operation\<close>

lemma SendToUser_full:
  assumes inv: "hub_inv h" and m: "marshal message = Inr data"
    and u: "userMap h uid = Some c" and f: "full (send (heap h c))"
  shows "SendToUser marshal h uid message = Inr (None, evicted h c)"
proof -
  from inv u have op: "\<not> closed (send (heap h c))" by (auto simp: hub_inv_def)
  show ?thesis using u m f op by (simp add: SendToUser_def try_send_cases evict_open)
qed

lemma evicted_gone:
  "hub_inv h \<Longrightarrow>
   closed (send (heap (evicted h c) c)) \<and>
   buf (send (heap (evicted h c) c)) = buf (send (heap h c)) \<and>
   clients (evicted h c) c = None \<and> (\<forall>u. userMap (evicted h c) u \<noteq> Some c)"
  by (auto simp: evicted_def hub_inv_def)

lemma backpressure_parts:
  assumes inv: "hub_inv h" and m: "marshal message = Inr data"
  shows "(userMap h uid = Some c \<and> full (send (heap h c)) \<longrightarrow>
           (\<exists>h'. SendToUser marshal h uid message = Inr (None, h') \<and>
                 closed (send (heap h' c)) \<and> buf (send (heap h' c)) = buf (send (heap h c)) \<and>
                 clients h' c = None \<and> (\<forall>u. userMap h' u \<noteq> Some c)))"
    and "(distinct order \<longrightarrow>
           (\<exists>h'. BroadcastMessage marshal h message order = Inr (None, h') \<and>
                 (\<forall>k. k \<in> set order \<and> clients h k \<noteq> None \<and> full (send (heap h k)) \<longrightarrow>
                    closed (send (heap h' k)) \<and> buf (send (heap h' k)) = buf (send (heap h k)) \<and>
                    clients h' k = None \<and> (\<forall>u. userMap h' u \<noteq> Some k))))"
    and "(\<exists>h'. SendToConversation marshal h conv message ps = Inr (None, h') \<and>
               clients h' = clients h \<and> userMap h' = userMap h \<and>
               (\<forall>k. closed (send (heap h' k)) = closed (send (heap h k)) \<and>
                    (full (send (heap h k)) \<longrightarrow> buf (send (heap h' k)) = buf (send (heap h k))) \<and>
                    (\<not> full (send (heap h k)) \<and> occurrences h k ps = 1 \<longrightarrow>
                       buf (send (heap h' k)) = buf (send (heap h k)) @ [data])))"
proof -
  show "(userMap h uid = Some c \<and> full (send (heap h c)) \<longrightarrow>
           (\<exists>h'. SendToUser marshal h uid message = Inr (None, h') \<and>
                 closed (send (heap h' c)) \<and> buf (send (heap h' c)) = buf (send (heap h c)) \<and>
                 clients h' c = None \<and> (\<forall>u. userMap h' u \<noteq> Some c)))"
    using SendToUser_full[of h marshal message data uid c] inv m evicted_gone[OF inv, of c] by blast
next
  show "(distinct order \<longrightarrow>
           (\<exists>h'. BroadcastMessage marshal h message order = Inr (None, h') \<and>
                 (\<forall>k. k \<in> set order \<and> clients h k \<noteq> None \<and> full (send (heap h k)) \<longrightarrow>
                    closed (send (heap h' k)) \<and> buf (send (heap h' k)) = buf (send (heap h k)) \<and>
                    clients h' k = None \<and> (\<forall>u. userMap h' u \<noteq> Some k))))"
  proof
    assume d: "distinct order"
    from broadcast_loop_effect[OF inv d, of data] obtain h' where
      r: "broadcast_loop h data order = Inr h'" and i: "hub_inv h'"
      and H: "\<forall>c. heap h' c =
        (if c \<in> set order \<and> clients h c \<noteq> None
         then (if full (send (heap h c))
               then (heap h c)\<lparr>send := (send (heap h c))\<lparr>closed := True\<rparr>\<rparr>
               else (heap h c)\<lparr>send := (send (heap h c))\<lparr>buf := buf (send (heap h c)) @ [data]\<rparr>\<rparr>)
         else heap h c)"
      and C: "\<forall>c. clients h' c =
        (if c \<in> set order \<and> full (send (heap h c)) then None else clients h c)"
      by blast
    have "\<forall>k. k \<in> set order \<and> clients h k \<noteq> None \<and> full (send (heap h k)) \<longrightarrow>
                    closed (send (heap h' k)) \<and> buf (send (heap h' k)) = buf (send (heap h k)) \<and>
                    clients h' k = None \<and> (\<forall>u. userMap h' u \<noteq> Some k)"
    proof (intro allI impI)
      fix k assume a: "k \<in> set order \<and> clients h k \<noteq> None \<and> full (send (heap h k))"
      have g: "clients h' k = None" using C a by simp
      have "\<forall>u. userMap h' u \<noteq> Some k" using i g unfolding hub_inv_def by fastforce
      then show "closed (send (heap h' k)) \<and> buf (send (heap h' k)) = buf (send (heap h k)) \<and>
                    clients h' k = None \<and> (\<forall>u. userMap h' u \<noteq> Some k)"
        using H a g by simp
    qed
    then show "\<exists>h'. BroadcastMessage marshal h message order = Inr (None, h') \<and>
                 (\<forall>k. k \<in> set order \<and> clients h k \<noteq> None \<and> full (send (heap h k)) \<longrightarrow>
                    closed (send (heap h' k)) \<and> buf (send (heap h' k)) = buf (send (heap h k)) \<and>
                    clients h' k = None \<and> (\<forall>u. userMap h' u \<noteq> Some k))"
      using r m by (simp add: BroadcastMessage_def)
  qed
next
  from SendToConversation_effect[of marshal message data h conv ps] m inv obtain h' where
    r: "SendToConversation marshal h conv message ps = Inr (None, h')"
    and c: "clients h' = clients h" "userMap h' = userMap h"
    and b: "\<forall>c. closed (send (heap h' c)) = closed (send (heap h c)) \<and>
                buf (send (heap h' c)) =
                  buf (send (heap h c)) @
                  replicate (min (room (send (heap h c))) (occurrences h c ps)) data"
    by blast
  have "\<forall>k. closed (send (heap h' k)) = closed (send (heap h k)) \<and>
                    (full (send (heap h k)) \<longrightarrow> buf (send (heap h' k)) = buf (send (heap h k))) \<and>
                    (\<not> full (send (heap h k)) \<and> occurrences h k ps = 1 \<longrightarrow>
                       buf (send (heap h' k)) = buf (send (heap h k)) @ [data])"
  proof
    fix k
    have f: "full (send (heap h k)) \<Longrightarrow> room (send (heap h k)) = 0"
      by (simp add: full_def room_def)
    have nf: "\<not> full (send (heap h k)) \<Longrightarrow> min (room (send (heap h k))) 1 = 1"
      by (simp add: full_def room_def)
    show "closed (send (heap h' k)) = closed (send (heap h k)) \<and>
                    (full (send (heap h k)) \<longrightarrow> buf (send (heap h' k)) = buf (send (heap h k))) \<and>
                    (\<not> full (send (heap h k)) \<and> occurrences h k ps = 1 \<longrightarrow>
                       buf (send (heap h' k)) = buf (send (heap h k)) @ [data])"
      using b[rule_format, of k] f nf by auto
  qed
  then show "(\<exists>h'. SendToConversation marshal h conv message ps = Inr (None, h') \<and>
               clients h' = clients h \<and> userMap h' = userMap h \<and>
               (\<forall>k. closed (send (heap h' k)) = closed (send (heap h k)) \<and>
                    (full (send (heap h k)) \<longrightarrow> buf (send (heap h' k)) = buf (send (heap h k))) \<and>
                    (\<not> full (send (heap h k)) \<and> occurrences h k ps = 1 \<longrightarrow>
                       buf (send (heap h' k)) = buf (send (heap h k)) @ [data])))"
    using r c by blast
qed

subsection \<open>The registry under the events of the hub loop\<close>

lemma hub_inv_Unregister:
  "hub_inv h \<Longrightarrow> Unregister h c = Inr h' \<Longrightarrow> hub_inv h'"
proof (cases "clients h c")
  case None
  assume "hub_inv h" "Unregister h c = Inr h'"
  with None show ?thesis by (simp add: Unregister_def)
next
  case (Some b)
  assume inv: "hub_inv h" and r: "Unregister h c = Inr h'"
  from inv Some have op: "\<not> closed (send (heap h c))" by (auto simp: hub_inv_def)
  from r Some op have "h' = evicted h c"
    by (auto simp add: Unregister_def close_chan_def Let_def set_send_def evicted_def)
  then show ?thesis using hub_inv_evicted[OF inv] by simp
qed

lemma Register_result:
  "marshal welcomeMsg = Inr d \<Longrightarrow> Register marshal h c = Inr h' \<Longrightarrow>
   \<not> closed (send (heap h c)) \<and>
   h' = h\<lparr>clients := (clients h)(c \<mapsto> True),
         userMap := (userMap h)(userID (heap h c) \<mapsto> c),
         heap := (heap h)(c := (heap h c)\<lparr>send := (send (heap h c))\<lparr>buf := buf (send (heap h c)) @ [d]\<rparr>\<rparr>)\<rparr>"
  by (auto simp add: Register_def blocking_send_def Let_def set_send_def split: if_splits)

lemma hub_inv_Register:
  assumes inv: "hub_inv h" and m: "marshal welcomeMsg = Inr d" and r: "Register marshal h c = Inr h'"
  shows "hub_inv h'"
proof -
  from Register_result[OF m r] have op: "\<not> closed (send (heap h c))"
    and h': "h' = h\<lparr>clients := (clients h)(c \<mapsto> True),
         userMap := (userMap h)(userID (heap h c) \<mapsto> c),
         heap := (heap h)(c := (heap h c)\<lparr>send := (send (heap h c))\<lparr>buf := buf (send (heap h c)) @ [d]\<rparr>\<rparr>)\<rparr>"
    by blast+
  show ?thesis using inv op unfolding h' hub_inv_def by auto
qed


lemma hub_inv_broadcast_loop:
  "hub_inv h \<Longrightarrow> broadcast_loop h data order = Inr h' \<Longrightarrow> hub_inv h'"
proof (induction order arbitrary: h)
  case Nil then show ?case by simp
next
  case (Cons k order)
  show ?case
  proof (cases "clients h k")
    case None
    with Cons show ?thesis by simp
  next
    case (Some b)
    with Cons.prems(1) have op: "\<not> closed (send (heap h k))" by (auto simp: hub_inv_def)
    show ?thesis
    proof (cases "full (send (heap h k))")
      case True
      with Cons.prems(2) Some op have "broadcast_loop (evicted h k) data order = Inr h'"
        by (simp add: try_send_cases evict_open)
      from Cons.IH[OF hub_inv_evicted[OF Cons.prems(1)] this] show ?thesis .
    next
      case False
      let ?ch = "(send (heap h k))\<lparr>buf := buf (send (heap h k)) @ [data]\<rparr>"
      from False Cons.prems(2) Some op have r: "broadcast_loop (set_send h k ?ch) data order = Inr h'"
        by (simp add: try_send_cases)
      have "hub_inv (set_send h k ?ch)" using Cons.prems(1) by (rule hub_inv_set_send) simp
      from Cons.IH[OF this r] show ?thesis .
    qed
  qed
qed

lemma hub_inv_Run_step:
  assumes "hub_inv h" and "marshal welcomeMsg = Inr d" and "Run_step marshal h ev = Inr h'"
  shows "hub_inv h'"
proof (cases ev)
  case (RegisterEv c)
  with assms show ?thesis using hub_inv_Register[of h marshal d c h'] by simp
next
  case (UnregisterEv c)
  with assms show ?thesis using hub_inv_Unregister[of h c h'] by simp
next
  case (BroadcastEv data order)
  with assms show ?thesis using hub_inv_broadcast_loop[of h data order h'] by simp
qed

lemma hub_inv_Run:
  "hub_inv h \<Longrightarrow> marshal welcomeMsg = Inr d \<Longrightarrow> Run marshal h evs = Inr h' \<Longrightarrow> hub_inv h'"
proof (induction evs arbitrary: h)
  case Nil then show ?case by simp
next
  case (Cons ev evs)
  show ?case
  proof (cases "Run_step marshal h ev")
    case (Inl p)
    with Cons.prems show ?thesis by simp
  next
    case (Inr h1)
    have i1: "hub_inv h1" using hub_inv_Run_step[of h marshal d ev h1] Cons.prems Inr by simp
    from Cons.prems Inr have "Run marshal h1 evs = Inr h'" by simp
    from Cons.IH[OF i1 Cons.prems(2) this] show ?thesis .
  qed
qed

lemma hub_inv_NewHub: "hub_inv (NewHub st)"
  by (simp add: hub_inv_def NewHub_def)

lemma bijection_Register:
  assumes b: "registry_bijection h" and m: "marshal welcomeMsg = Inr d"
    and fresh: "userMap h (userID (heap h c)) = None"
    and r: "Register marshal h c = Inr h'"
  shows "registry_bijection h'"
proof -
  from b have inv: "hub_inv h"
    and bij: "\<forall>k. clients h k \<noteq> None \<longrightarrow> userMap h (userID (heap h k)) = Some k"
    by (auto simp: registry_bijection_def)
  have i': "hub_inv h'" using hub_inv_Register[OF inv m r] .
  from Register_result[OF m r] have
    h': "h' = h\<lparr>clients := (clients h)(c \<mapsto> True),
         userMap := (userMap h)(userID (heap h c) \<mapsto> c),
         heap := (heap h)(c := (heap h c)\<lparr>send := (send (heap h c))\<lparr>buf := buf (send (heap h c)) @ [d]\<rparr>\<rparr>)\<rparr>"
    by blast
  have "\<forall>k. clients h' k \<noteq> None \<longrightarrow> userMap h' (userID (heap h' k)) = Some k"
  proof (intro allI impI)
    fix k assume k: "clients h' k \<noteq> None"
    show "userMap h' (userID (heap h' k)) = Some k"
    proof (cases "k = c")
      case True then show ?thesis by (simp add: h')
    next
      case False
      with k have "clients h k \<noteq> None" by (simp add: h')
      with bij have e: "userMap h (userID (heap h k)) = Some k" by blast
      with fresh have "userID (heap h k) \<noteq> userID (heap h c)" by auto
      with e False show ?thesis by (simp add: h')
    qed
  qed
  with i' show ?thesis by (simp add: registry_bijection_def)
qed

lemma bijection_Unregister:
  assumes b: "registry_bijection h" and r: "Unregister h c = Inr h'"
  shows "registry_bijection h'"
proof (cases "clients h c")
  case None
  with r b show ?thesis by (simp add: Unregister_def)
next
  case (Some x)
  from b have inv: "hub_inv h"
    and bij: "\<forall>k. clients h k \<noteq> None \<longrightarrow> userMap h (userID (heap h k)) = Some k"
    by (auto simp: registry_bijection_def)
  from inv Some have op: "\<not> closed (send (heap h c))" by (auto simp: hub_inv_def)
  from r Some op have h': "h' = evicted h c"
    by (auto simp add: Unregister_def close_chan_def Let_def set_send_def evicted_def)
  have "\<forall>k. clients h' k \<noteq> None \<longrightarrow> userMap h' (userID (heap h' k)) = Some k"
  proof (intro allI impI)
    fix k assume k: "clients h' k \<noteq> None"
    then have kc: "k \<noteq> c" and "clients h k \<noteq> None" by (auto simp: h' evicted_def split: if_splits)
    with bij have e: "userMap h (userID (heap h k)) = Some k" by blast
    have "userID (heap h k) \<noteq> userID (heap h c)"
    proof
      assume "userID (heap h k) = userID (heap h c)"
      with e have "userMap h (userID (heap h c)) = Some k" by simp
      moreover from bij Some have "userMap h (userID (heap h c)) = Some c" by auto
      ultimately show False using kc by simp
    qed
    with e kc show "userMap h' (userID (heap h' k)) = Some k" by (simp add: h' evicted_def)
  qed
  with hub_inv_Unregister[OF inv r] show ?thesis by (simp add: registry_bijection_def)
qed

subsection \<open>How the outbound pump ends\<close>

declare WritePump.simps [simp del]

lemma WritePump_end:
  "(writes_ok w cn (buf ch) \<and> closed ch \<longrightarrow> fst (WritePump w cn ch) = QueueClosed) \<and>
   (writes_ok w cn (buf ch) \<and> \<not> closed ch \<longrightarrow> fst (WritePump w cn ch) = Waiting) \<and>
   (\<not> writes_ok w cn (buf ch) \<longrightarrow> (\<exists>e. fst (WritePump w cn ch) = WriteFailed e)) \<and>
   (fst (WritePump w cn ch) \<noteq> Waiting \<longrightarrow> \<not> conn_open (fst (snd (WritePump w cn ch))))"
proof (induction w cn ch rule: WritePump.induct)
  case (1 w cn ch)
  show ?case
  proof (cases "buf ch")
    case Nil
    then show ?thesis
      by (auto simp: receive_def Close_def WritePump.simps split: prod.splits)
  next
    case (Cons m ms)
    then have rc: "receive ch = Got m (ch\<lparr>buf := ms\<rparr>)" by (simp add: receive_def)
    show ?thesis
    proof (cases "w cn TextMessage m")
      case (Pair e cn1)
      show ?thesis
      proof (cases e)
        case None
        with Pair rc have eq: "WritePump w cn ch = WritePump w cn1 (ch\<lparr>buf := ms\<rparr>)"
          by (subst WritePump.simps) simp
        from "1.IH"[OF rc Pair[unfolded None, symmetric] refl]
        show ?thesis using eq Cons Pair None by simp
      next
        case (Some err)
        with Pair rc have eq: "WritePump w cn ch = (WriteFailed err, Close cn1, ch\<lparr>buf := ms\<rparr>)"
          by (subst WritePump.simps) simp
        then show ?thesis using Cons Pair Some by (simp add: Close_def)
      qed
    qed
  qed
qed

subsection \<open>A chat frame in the inbound pump\<close>








text \<open>After a frame that was handled without a panic, the pump is at its next read.\<close>

lemma ReadPump_after_frame:
  assumes "handle_frame e c w message now = Inr w'"
  shows "ReadPump e c w [Frame message now] = Inr (Reading, w')"
    and "ReadPump e c w (Frame message now # Frame m2 n2 # rest) =
           (case handle_frame e c w' m2 n2 of
              Inl p \<Rightarrow> Inl p
            | Inr w2 \<Rightarrow> ReadPump e c w2 rest)"
    and "ReadPump e c w (Frame message now # ReadError err # rest) =
           (case Unregister (hub w') c of
              Inl p \<Rightarrow> Inl p
            | Inr h \<Rightarrow>
                Inr (Exited,
                     w'\<lparr>hub := h\<lparr>heap := (heap h)(c := (heap h c)\<lparr>conn := Close (conn (heap h c))\<rparr>)\<rparr>\<rparr>))"
  using assms by simp_all


subsection \<open>A typing frame in the inbound pump\<close>

lemma handle_typing_frame:
  assumes u: "json_Unmarshal e message = Inr \<lparr>Type = ''typing'', Payload = PJson (JObj typing)\<rparr>"
    and r: "response = \<lparr>Type = ''typing'',
                         Payload = PJson (JObj
                           [(''user_id'', JNum (userID (heap (hub w) c))),
                            (''conversation_id'', index typing ''conversation_id''),
                            (''is_typing'', index typing ''is_typing'')])\<rparr>"
  shows "handle_frame e c w message now =
     (case BroadcastMessage (json_Marshal e) (hub w) response (range_clients e (hub w)) of
        Inl p \<Rightarrow> Inl p
      | Inr (err, h) \<Rightarrow> Inr (w\<lparr>hub := h, calls := calls w @ [BroadcastCall response]\<rparr>))"
  using u unfolding r
  by (simp add: handle_frame_def Let_def split: prod.splits sum.splits)

lemma BroadcastMessage_effect:
  assumes inv: "hub_inv h" and m: "marshal message = Inr data" and d: "distinct order"
  shows "\<exists>h'. BroadcastMessage marshal h message order = Inr (None, h') \<and> hub_inv h' \<and>
     (\<forall>k. k \<in> set order \<and> clients h k \<noteq> None \<longrightarrow>
        (if full (send (heap h k))
         then clients h' k = None \<and> closed (send (heap h' k)) \<and>
              buf (send (heap h' k)) = buf (send (heap h k))
         else clients h' k = clients h k \<and> \<not> closed (send (heap h' k)) \<and>
              buf (send (heap h' k)) = buf (send (heap h k)) @ [data]))"
proof -
  from broadcast_loop_effect[OF inv d, of data] obtain h' where
    r: "broadcast_loop h data order = Inr h'" and i: "hub_inv h'"
    and H: "\<forall>c. heap h' c =
      (if c \<in> set order \<and> clients h c \<noteq> None
       then (if full (send (heap h c))
             then (heap h c)\<lparr>send := (send (heap h c))\<lparr>closed := True\<rparr>\<rparr>
             else (heap h c)\<lparr>send := (send (heap h c))\<lparr>buf := buf (send (heap h c)) @ [data]\<rparr>\<rparr>)
       else heap h c)"
    and C: "\<forall>c. clients h' c =
      (if c \<in> set order \<and> full (send (heap h c)) then None else clients h c)"
    by blast
  have "\<forall>k. k \<in> set order \<and> clients h k \<noteq> None \<longrightarrow>
        (if full (send (heap h k))
         then clients h' k = None \<and> closed (send (heap h' k)) \<and>
              buf (send (heap h' k)) = buf (send (heap h k))
         else clients h' k = clients h k \<and> \<not> closed (send (heap h' k)) \<and>
              buf (send (heap h' k)) = buf (send (heap h k)) @ [data])"
  proof (intro allI impI)
    fix k assume a: "k \<in> set order \<and> clients h k \<noteq> None"
    then have op: "\<not> closed (send (heap h k))" using inv by (auto simp: hub_inv_def)
    show "(if full (send (heap h k))
         then clients h' k = None \<and> closed (send (heap h' k)) \<and>
              buf (send (heap h' k)) = buf (send (heap h k))
         else clients h' k = clients h k \<and> \<not> closed (send (heap h' k)) \<and>
              buf (send (heap h' k)) = buf (send (heap h k)) @ [data])"
      using H[rule_format, of k] C[rule_format, of k] a op by simp
  qed
  then show ?thesis using r i m by (simp add: BroadcastMessage_def)
qed

subsection \<open>The sections of direct delivery\<close>

lemma SendToUser_sections:
  "SendToUser marshal h uid message =
     (case interleave marshal uid message (AtLookup, h) [Deliver, Deliver, Deliver] of
        Inl p \<Rightarrow> Inl p
      | Inr (Returned err, h') \<Rightarrow> Inr (err, h')
      | Inr (_, h') \<Rightarrow> Inr (None, h'))"
proof (cases "userMap h uid")
  case None
  then show ?thesis by (simp add: SendToUser_def SendToUser_step_def)
next
  case (Some client)
  show ?thesis
  proof (cases "marshal message")
    case (Inl err)
    with Some show ?thesis by (simp add: SendToUser_def SendToUser_step_def)
  next
    case (Inr data)
    show ?thesis
    proof (cases "try_send (send (heap h client)) data")
      case (Inl p)
      with Some Inr show ?thesis by (simp add: SendToUser_def SendToUser_step_def)
    next
      case sent: (Inr r)
      show ?thesis
      proof (cases r)
        case None
        with Some Inr sent show ?thesis
          by (cases "evict h client") (simp_all add: SendToUser_def SendToUser_step_def)
      next
        case (Some ch)
        with \<open>userMap h uid = Some client\<close> Inr sent show ?thesis
          by (simp add: SendToUser_def SendToUser_step_def)
      qed
    qed
  qed
qed

subsection \<open>The claims\<close>

text \<open>
  C4. Direct delivery to an identity that has no entry in the identity map returns
  \<^verbatim>\<open>nil\<close>, and the hub state (both maps and every queue) is what it was.
\<close>

theorem SendToUser_absent:
  "userMap h uid = None \<Longrightarrow> SendToUser marshal h uid message = Inr (None, h)"
  by (simp add: SendToUser_def)

theorem SendToUser_absent_witness:
  "userMap (NewHub (\<lambda>_. NewClient conn0 1 ''ann'')) 7 = None \<and>
   SendToUser (\<lambda>m. Inr m) (NewHub (\<lambda>_. NewClient conn0 1 ''ann'')) 7 ''hi''
     = Inr (None, NewHub (\<lambda>_. NewClient conn0 1 ''ann''))"
  using SendToUser_absent [of "NewHub (\<lambda>_. NewClient conn0 1 ''ann'')" 7 "\<lambda>m. Inr m" "''hi''"]
  by (simp add: NewHub_def)

text \<open>
  C7. Unregistering a client that is not in the live set returns normally with the hub
  state unchanged: both maps are as before and no queue is closed. So unregistering is
  idempotent: after an unregister that returned, a second one of the same client changes
  nothing.
\<close>

theorem Unregister_absent:
  "(clients h client = None \<longrightarrow> Unregister h client = Inr h) \<and>
   (\<forall>h'. Unregister h client = Inr h' \<longrightarrow> Unregister h' client = Inr h')"
proof (intro conjI allI impI)
  assume "clients h client = None"
  then show "Unregister h client = Inr h" by (simp add: Unregister_def)
next
  fix h' assume r: "Unregister h client = Inr h'"
  have "clients h' client = None"
  proof (cases "clients h client")
    case None
    with r show ?thesis by (simp add: Unregister_def)
  next
    case (Some b)
    with r show ?thesis
      by (auto simp: Unregister_def Let_def close_chan_def set_send_def split: if_splits)
  qed
  then show "Unregister h' client = Inr h'" by (simp add: Unregister_def)
qed

theorem Unregister_absent_witness:
  "clients (NewHub two_sessions) 3 = None \<and>
   Unregister (NewHub two_sessions) 3 = Inr (NewHub two_sessions) \<and>
   (\<exists>h'. Unregister hubAB 1 = Inr h' \<and> clients h' 1 = None \<and> closed (send (heap h' 1)) \<and>
         Unregister h' 1 = Inr h')"
proof -
  have n: "clients (NewHub two_sessions) 3 = None" by (simp add: NewHub_def)
  have 1: "Unregister (NewHub two_sessions) 3 = Inr (NewHub two_sessions)"
    using Unregister_absent[of "NewHub two_sessions" 3] n by blast
  have "\<exists>h'. Unregister hubAB 1 = Inr h' \<and> clients h' 1 = None \<and> closed (send (heap h' 1))"
    by (simp add: Unregister_def hubAB_def close_chan_def full_chan_def set_send_def Let_def)
  then obtain h' where u: "Unregister hubAB 1 = Inr h'" "clients h' 1 = None" "closed (send (heap h' 1))"
    by blast
  have "Unregister h' 1 = Inr h'" using Unregister_absent[of hubAB 1] u(1) by blast
  with n 1 u show ?thesis by blast
qed

text \<open>
  C10, as amended. Scoped delivery on a well-formed hub returns \<^verbatim>\<open>nil\<close>, leaves both
  maps alone, and appends to the queue of every client one copy of the serialized envelope
  for each entry of the participant list that resolves to that client, for as long as the
  queue has room: the number of copies is the smaller of the free slots and the number of
  such entries. Repeated identities are not merged, and the function has no sender
  argument, so the sender's identity in the list is served like any other.
\<close>

theorem SendToConversation_copies:
  assumes "marshal message = Inr data" and "hub_inv h"
  shows "\<exists>h'. SendToConversation marshal h conv message ps = Inr (None, h') \<and>
           clients h' = clients h \<and> userMap h' = userMap h \<and>
           (\<forall>c. buf (send (heap h' c)) =
                  buf (send (heap h c)) @
                  replicate (min (room (send (heap h c))) (occurrences h c ps)) data)"
  using SendToConversation_effect[of marshal message data h conv ps] assms by blast

theorem SendToConversation_copies_witness:
  "Inr ''m'' = (Inr ''m'' :: string + bytes) \<and> hub_inv hubAB \<and>
   (\<exists>h'. SendToConversation Inr hubAB 7 ''m'' [1, 1, 2] = Inr (None, h') \<and>
         buf (send (heap h' 0)) = [''m'', ''m''] \<and>
         buf (send (heap h' 1)) = replicate 256 ''x'')"
proof -
  from SendToConversation_copies[of Inr "''m''" "''m''" hubAB 7 "[1, 1, 2]"] hub_inv_hubAB
  obtain h' where r: "SendToConversation Inr hubAB 7 ''m'' [1, 1, 2] = Inr (None, h')"
    and b: "\<forall>c. buf (send (heap h' c)) =
                  buf (send (heap hubAB c)) @
                  replicate (min (room (send (heap hubAB c))) (occurrences hubAB c [1, 1, 2])) ''m''"
    by blast
  have "buf (send (heap h' 0)) = [''m'', ''m'']"
    using b[rule_format, of 0]
    by (simp add: hubAB_def occurrences_def room_def NewClient_def make_chan_def numeral_2_eq_2)
  moreover have "buf (send (heap h' 1)) = replicate 256 ''x''"
    using b[rule_format, of 1]
    by (simp add: hubAB_def occurrences_def room_def full_chan_def)
  ultimately show ?thesis using r hub_inv_hubAB by blast
qed

text \<open>
  The claim as written fails where a queue is full: user 2 is registered and occurs once
  in the list, and nothing is enqueued for it.
\<close>

theorem SendToConversation_full_counterexample:
  "userMap hubAB 2 = Some 1 \<and> occurrences hubAB 1 [2] = 1 \<and>
   SendToConversation Inr hubAB 7 ''m'' [2] = Inr (None, hubAB)"
  by (simp add: SendToConversation_def hubAB_def try_send_def full_chan_def occurrences_def)

text \<open>
  C1, as amended. On a well-formed hub no delivery operation blocks or panics, and a
  registered recipient whose queue is full does not get the message. Direct delivery and
  broadcast evict that recipient: its queue is closed (what it held stays), it leaves the
  live set, and no identity-map entry points to it any more. Scoped delivery does not
  evict: both maps and every closed flag are as before, a full queue is left as it was,
  and every other participant with a free slot that occurs once in the list gets its copy.
\<close>

theorem backpressure_by_strategy:
  assumes "hub_inv h" and "marshal message = Inr data"
  shows "(userMap h uid = Some c \<and> full (send (heap h c)) \<longrightarrow>
           (\<exists>h'. SendToUser marshal h uid message = Inr (None, h') \<and>
                 closed (send (heap h' c)) \<and> buf (send (heap h' c)) = buf (send (heap h c)) \<and>
                 clients h' c = None \<and> (\<forall>u. userMap h' u \<noteq> Some c))) \<and>
         (distinct order \<longrightarrow>
           (\<exists>h'. BroadcastMessage marshal h message order = Inr (None, h') \<and>
                 (\<forall>k. k \<in> set order \<and> clients h k \<noteq> None \<and> full (send (heap h k)) \<longrightarrow>
                    closed (send (heap h' k)) \<and> buf (send (heap h' k)) = buf (send (heap h k)) \<and>
                    clients h' k = None \<and> (\<forall>u. userMap h' u \<noteq> Some k)))) \<and>
         (\<exists>h'. SendToConversation marshal h conv message ps = Inr (None, h') \<and>
               clients h' = clients h \<and> userMap h' = userMap h \<and>
               (\<forall>k. closed (send (heap h' k)) = closed (send (heap h k)) \<and>
                    (full (send (heap h k)) \<longrightarrow> buf (send (heap h' k)) = buf (send (heap h k))) \<and>
                    (\<not> full (send (heap h k)) \<and> occurrences h k ps = 1 \<longrightarrow>
                       buf (send (heap h' k)) = buf (send (heap h k)) @ [data])))"
  using backpressure_parts(1)[of h marshal message data uid c]
    backpressure_parts(2)[of h marshal message data order]
    backpressure_parts(3)[of h marshal message data conv ps] assms
  by blast

theorem backpressure_by_strategy_witness:
  "hub_inv hubAB \<and> userMap hubAB 2 = Some 1 \<and> full (send (heap hubAB 1)) \<and>
   (\<exists>h'. SendToUser Inr hubAB 2 ''m'' = Inr (None, h') \<and>
         closed (send (heap h' 1)) \<and> clients h' 1 = None \<and> userMap h' 2 \<noteq> Some 1) \<and>
   (\<exists>h'. BroadcastMessage Inr hubAB ''m'' [0, 1] = Inr (None, h') \<and>
         closed (send (heap h' 1)) \<and> clients h' 1 = None \<and> userMap h' 2 \<noteq> Some 1) \<and>
   (\<exists>h'. SendToConversation Inr hubAB 7 ''m'' [1, 2] = Inr (None, h') \<and>
         clients h' 1 = Some True \<and> userMap h' 2 = Some 1 \<and> \<not> closed (send (heap h' 1)) \<and>
         buf (send (heap h' 1)) = replicate 256 ''x'' \<and> buf (send (heap h' 0)) = [''m''])"
proof -
  have u: "userMap hubAB 2 = Some 1" by (simp add: hubAB_def)
  have f: "full (send (heap hubAB 1))" by (simp add: hubAB_def full_def full_chan_def)
  have nf: "\<not> full (send (heap hubAB 0))"
    by (simp add: hubAB_def full_def NewClient_def make_chan_def)
  have o: "occurrences hubAB 0 [1, 2] = 1" by (simp add: hubAB_def occurrences_def)
  have c: "clients hubAB 1 = Some True" by (simp add: hubAB_def)
  have cl: "\<not> closed (send (heap hubAB 1))" by (simp add: hubAB_def full_chan_def)
  have b0: "buf (send (heap hubAB 0)) = []" by (simp add: hubAB_def NewClient_def make_chan_def)
  have b1: "buf (send (heap hubAB 1)) = replicate 256 ''x''" by (simp add: hubAB_def full_chan_def)
  have d: "distinct [0, 1 :: nat]" by simp
  note T = backpressure_by_strategy[of hubAB Inr "''m''" "''m''" 2 1 "[0, 1]" 7 "[1, 2]",
             OF hub_inv_hubAB refl]
  from T u f obtain h1 where
    "SendToUser Inr hubAB 2 ''m'' = Inr (None, h1) \<and>
       closed (send (heap h1 1)) \<and> clients h1 1 = None \<and> userMap h1 2 \<noteq> Some 1"
    by blast
  moreover from T d obtain h2 where
    r2: "BroadcastMessage Inr hubAB ''m'' [0, 1] = Inr (None, h2)"
    and B: "\<forall>k. k \<in> set [0, 1] \<and> clients hubAB k \<noteq> None \<and> full (send (heap hubAB k)) \<longrightarrow>
            closed (send (heap h2 k)) \<and> buf (send (heap h2 k)) = buf (send (heap hubAB k)) \<and>
            clients h2 k = None \<and> (\<forall>u. userMap h2 u \<noteq> Some k)"
    by blast
  have "BroadcastMessage Inr hubAB ''m'' [0, 1] = Inr (None, h2) \<and>
       closed (send (heap h2 1)) \<and> clients h2 1 = None \<and> userMap h2 2 \<noteq> Some 1"
    using r2 B[rule_format, of 1] c f by auto
  moreover from T obtain h3 where
    r3: "SendToConversation Inr hubAB 7 ''m'' [1, 2] = Inr (None, h3)"
    and m3: "clients h3 = clients hubAB" "userMap h3 = userMap hubAB"
    and S: "\<forall>k. closed (send (heap h3 k)) = closed (send (heap hubAB k)) \<and>
            (full (send (heap hubAB k)) \<longrightarrow> buf (send (heap h3 k)) = buf (send (heap hubAB k))) \<and>
            (\<not> full (send (heap hubAB k)) \<and> occurrences hubAB k [1, 2] = 1 \<longrightarrow>
               buf (send (heap h3 k)) = buf (send (heap hubAB k)) @ [''m''])"
    by blast
  have "SendToConversation Inr hubAB 7 ''m'' [1, 2] = Inr (None, h3) \<and>
         clients h3 1 = Some True \<and> userMap h3 2 = Some 1 \<and> \<not> closed (send (heap h3 1)) \<and>
         buf (send (heap h3 1)) = replicate 256 ''x'' \<and> buf (send (heap h3 0)) = [''m'']"
    using r3 m3 S[rule_format, of 0] S[rule_format, of 1] u f nf o c cl b0 b1 by simp
  ultimately show ?thesis using hub_inv_hubAB u f by blast
qed

text \<open>
  The claim as written fails for scoped delivery: after a delivery to users 1 and 2, the
  saturated client of user 2 is still in the live set and in the identity map, and its
  queue is open.
\<close>

theorem scoped_no_eviction_counterexample:
  "full (send (heap hubAB 1)) \<and> userMap hubAB 2 = Some 1 \<and>
   SendToConversation Inr hubAB 7 ''m'' [1, 2]
     = Inr (None, set_send hubAB 0 (send (heap hubAB 0)\<lparr>buf := [''m'']\<rparr>)) \<and>
   clients (set_send hubAB 0 (send (heap hubAB 0)\<lparr>buf := [''m'']\<rparr>)) 1 = Some True \<and>
   userMap (set_send hubAB 0 (send (heap hubAB 0)\<lparr>buf := [''m'']\<rparr>)) 2 = Some 1 \<and>
   \<not> closed (send (heap (set_send hubAB 0 (send (heap hubAB 0)\<lparr>buf := [''m'']\<rparr>)) 1))"
  by (simp add: SendToConversation_def hubAB_def try_send_def full_def full_chan_def
        NewClient_def make_chan_def set_send_def)

text \<open>
  C2. The code at the input where the claim fails: user 1 opens a second session while the
  first is registered, then the first session is unregistered. The overwrite leaves both
  sessions in the live set with the identity map pointing to the second; the unregister of
  the first deletes the identity-map entry of user 1, which is the entry of the second. The
  second session is then in the live set with no identity-map entry: the bijection is not
  restored.
\<close>

theorem superseded_unregister_drops_successor:
  "(\<exists>h1. Run marshal_const (NewHub two_sessions) [RegisterEv 0, RegisterEv 1] = Inr h1 \<and>
         clients h1 0 = Some True \<and> clients h1 1 = Some True \<and> userMap h1 1 = Some 1 \<and>
         \<not> closed (send (heap h1 0))) \<and>
   (\<exists>h2. Run marshal_const (NewHub two_sessions) [RegisterEv 0, RegisterEv 1, UnregisterEv 0]
           = Inr h2 \<and>
         clients h2 0 = None \<and> clients h2 1 = Some True \<and> \<not> closed (send (heap h2 1)) \<and>
         userID (heap h2 1) = 1 \<and> userMap h2 1 = None)"
proof -
  have "\<exists>h1. Run marshal_const (NewHub two_sessions) [RegisterEv 0, RegisterEv 1] = Inr h1 \<and>
         clients h1 0 = Some True \<and> clients h1 1 = Some True \<and> userMap h1 1 = Some 1 \<and>
         \<not> closed (send (heap h1 0))"
    by (simp add: NewHub_def two_sessions_def marshal_const_def Register_def NewClient_def
          make_chan_def blocking_send_def set_send_def Let_def welcomeMsg_def)
  moreover
  have "\<exists>h2. Run marshal_const (NewHub two_sessions) [RegisterEv 0, RegisterEv 1, UnregisterEv 0]
           = Inr h2 \<and>
         clients h2 0 = None \<and> clients h2 1 = Some True \<and> \<not> closed (send (heap h2 1)) \<and>
         userID (heap h2 1) = 1 \<and> userMap h2 1 = None"
    by (simp add: NewHub_def two_sessions_def marshal_const_def Register_def NewClient_def
          Unregister_def close_chan_def make_chan_def blocking_send_def set_send_def Let_def
          welcomeMsg_def)
  ultimately show ?thesis by blast
qed

text \<open>
  C6, as amended. The outbound pump returns in two cases and in no other: it finds the
  queue closed after writing what was still buffered, or a write to the transport fails.
  While the queue is open and every write succeeds it has not returned: it waits on the
  empty queue. Whenever it returns, the transport is closed.
\<close>

theorem WritePump_returns_iff:
  "(fst (WritePump w cn ch) \<noteq> Waiting \<longleftrightarrow> closed ch \<or> \<not> writes_ok w cn (buf ch)) \<and>
   (fst (WritePump w cn ch) = QueueClosed \<longleftrightarrow> closed ch \<and> writes_ok w cn (buf ch)) \<and>
   ((\<exists>e. fst (WritePump w cn ch) = WriteFailed e) \<longleftrightarrow> \<not> writes_ok w cn (buf ch)) \<and>
   (fst (WritePump w cn ch) \<noteq> Waiting \<longrightarrow> \<not> conn_open (fst (snd (WritePump w cn ch))))"
proof (cases "writes_ok w cn (buf ch)")
  case True
  then show ?thesis using WritePump_end[of w cn ch] by (cases "closed ch") auto
next
  case False
  then show ?thesis using WritePump_end[of w cn ch] by auto
qed

theorem WritePump_returns_iff_witness:
  "closed (make_chan 256\<lparr>buf := [''m''], closed := True\<rparr>) \<and>
   writes_ok write_ok conn0 (buf (make_chan 256\<lparr>buf := [''m''], closed := True\<rparr>)) \<and>
   fst (WritePump write_ok conn0 (make_chan 256\<lparr>buf := [''m''], closed := True\<rparr>)) = QueueClosed \<and>
   \<not> conn_open (fst (snd (WritePump write_ok conn0 (make_chan 256\<lparr>buf := [''m''], closed := True\<rparr>))))"
proof -
  have c: "closed (make_chan 256\<lparr>buf := [''m''], closed := True\<rparr>)"
    by (simp add: make_chan_def)
  have k: "writes_ok write_ok conn0 (buf (make_chan 256\<lparr>buf := [''m''], closed := True\<rparr>))"
    by (simp add: make_chan_def write_ok_def)
  show ?thesis
    using WritePump_returns_iff[of write_ok conn0 "make_chan 256\<lparr>buf := [''m''], closed := True\<rparr>"]
      c k
    by simp
qed

text \<open>
  The claim as written fails: with the queue open and one message buffered, a failed write
  makes the pump return.
\<close>

theorem WritePump_write_error_counterexample:
  "\<not> closed (make_chan 256\<lparr>buf := [''m'']\<rparr>) \<and>
   WritePump write_broken conn0 (make_chan 256\<lparr>buf := [''m'']\<rparr>)
     = (WriteFailed ''broken pipe'', Close conn0, make_chan 256)"
  by (simp add: WritePump.simps receive_def make_chan_def write_broken_def)



text \<open>
  C8, as amended. For a frame that decodes to a \<^verbatim>\<open>typing\<close> envelope with an object
  payload, on a well-formed hub: the pump makes one call, the broadcast of the
  \<^verbatim>\<open>typing\<close> envelope whose payload is the sender's user id with the frame's
  \<^verbatim>\<open>conversation_id\<close> and \<^verbatim>\<open>is_typing\<close>; the database is untouched and no persistence
  call is made. The broadcast consults no membership: every client of the live set with a
  free slot gets the serialized envelope appended to its queue and stays registered, and
  every client of the live set whose queue is full gets nothing and is evicted.
\<close>

theorem typing_frame_broadcast:
  fixes e :: "'db env" and w :: "'db World" and c :: cid and typing :: "(string \<times> jv) list"
  defines "response \<equiv> \<lparr>Type = ''typing'',
                         Payload = PJson (JObj
                           [(''user_id'', JNum (userID (heap (hub w) c))),
                            (''conversation_id'', index typing ''conversation_id''),
                            (''is_typing'', index typing ''is_typing'')])\<rparr>"
  assumes u: "json_Unmarshal e message = Inr \<lparr>Type = ''typing'', Payload = PJson (JObj typing)\<rparr>"
    and m: "json_Marshal e response = Inr data"
    and inv: "hub_inv (hub w)"
    and d: "distinct (range_clients e (hub w))"
    and s: "set (range_clients e (hub w)) = dom (clients (hub w))"
  shows "\<exists>w'. handle_frame e c w message now = Inr w' \<and> db w' = db w \<and>
           calls w' = calls w @ [BroadcastCall response] \<and>
           (\<forall>k. clients (hub w) k \<noteq> None \<longrightarrow>
              (if full (send (heap (hub w) k))
               then clients (hub w') k = None \<and> closed (send (heap (hub w') k)) \<and>
                    buf (send (heap (hub w') k)) = buf (send (heap (hub w) k))
               else clients (hub w') k = clients (hub w) k \<and> \<not> closed (send (heap (hub w') k)) \<and>
                    buf (send (heap (hub w') k)) = buf (send (heap (hub w) k)) @ [data]))"
proof -
  from BroadcastMessage_effect[of "hub w" "json_Marshal e" response data "range_clients e (hub w)"]
    inv m d
  obtain h' where
    r: "BroadcastMessage (json_Marshal e) (hub w) response (range_clients e (hub w)) = Inr (None, h')"
    and E: "\<forall>k. k \<in> set (range_clients e (hub w)) \<and> clients (hub w) k \<noteq> None \<longrightarrow>
        (if full (send (heap (hub w) k))
         then clients h' k = None \<and> closed (send (heap h' k)) \<and>
              buf (send (heap h' k)) = buf (send (heap (hub w) k))
         else clients h' k = clients (hub w) k \<and> \<not> closed (send (heap h' k)) \<and>
              buf (send (heap h' k)) = buf (send (heap (hub w) k)) @ [data])"
    by blast
  let ?w' = "w\<lparr>hub := h', calls := calls w @ [BroadcastCall response]\<rparr>"
  have hf: "handle_frame e c w message now = Inr ?w'"
    using handle_typing_frame[OF u, of response w c now] r by (simp add: response_def)
  have "\<forall>k. clients (hub w) k \<noteq> None \<longrightarrow>
              (if full (send (heap (hub w) k))
               then clients (hub ?w') k = None \<and> closed (send (heap (hub ?w') k)) \<and>
                    buf (send (heap (hub ?w') k)) = buf (send (heap (hub w) k))
               else clients (hub ?w') k = clients (hub w) k \<and> \<not> closed (send (heap (hub ?w') k)) \<and>
                    buf (send (heap (hub ?w') k)) = buf (send (heap (hub w) k)) @ [data])"
  proof (intro allI impI)
    fix k assume a: "clients (hub w) k \<noteq> None"
    then have "k \<in> set (range_clients e (hub w))" using s by (auto simp: dom_def)
    with E a show "(if full (send (heap (hub w) k))
               then clients (hub ?w') k = None \<and> closed (send (heap (hub ?w') k)) \<and>
                    buf (send (heap (hub ?w') k)) = buf (send (heap (hub w) k))
               else clients (hub ?w') k = clients (hub w) k \<and> \<not> closed (send (heap (hub ?w') k)) \<and>
                    buf (send (heap (hub ?w') k)) = buf (send (heap (hub w) k)) @ [data])"
      by simp
  qed
  then show ?thesis using hf by (intro exI[of _ ?w']) simp
qed

theorem typing_frame_broadcast_witness:
  "hub_inv (hub worldAB) \<and>
   (\<exists>w'. handle_frame env_ok 0 worldAB ''T'' 5 = Inr w' \<and> db w' = [] \<and>
         calls w' = [BroadcastCall \<lparr>Type = ''typing'',
                        Payload = PJson (JObj [(''user_id'', JNum 1), (''conversation_id'', JFloat 7),
                                               (''is_typing'', JBool True)])\<rparr>] \<and>
         clients (hub w') 0 = Some True \<and> buf (send (heap (hub w') 0)) = [''typing''] \<and>
         clients (hub w') 1 = None \<and> buf (send (heap (hub w') 1)) = replicate 256 ''x'')"
proof -
  have inv: "hub_inv (hub worldAB)" using hub_inv_hubAB by (simp add: worldAB_def)
  have u: "json_Unmarshal env_ok ''T'' =
      Inr \<lparr>Type = ''typing'',
           Payload = PJson (JObj [(''conversation_id'', JFloat 7), (''is_typing'', JBool True)])\<rparr>"
    by (simp add: env_ok_def)
  have ix: "index [(''conversation_id'', JFloat 7), (''is_typing'', JBool True)] ''conversation_id'' = JFloat 7"
    "index [(''conversation_id'', JFloat 7), (''is_typing'', JBool True)] ''is_typing'' = JBool True"
    by (simp_all add: index_def)
  have uid: "userID (heap (hub worldAB) 0) = 1"
    by (simp add: worldAB_def hubAB_def NewClient_def)
  have m: "json_Marshal env_ok
            \<lparr>Type = ''typing'',
             Payload = PJson (JObj
               [(''user_id'', JNum (userID (heap (hub worldAB) 0))),
                (''conversation_id'',
                 index [(''conversation_id'', JFloat 7), (''is_typing'', JBool True)] ''conversation_id''),
                (''is_typing'',
                 index [(''conversation_id'', JFloat 7), (''is_typing'', JBool True)] ''is_typing'')])\<rparr>
           = Inr ''typing''"
    by (simp add: env_ok_def marshal_const_def)
  have d: "distinct (range_clients env_ok (hub worldAB))" by (simp add: env_ok_def)
  have st: "set (range_clients env_ok (hub worldAB)) = dom (clients (hub worldAB))"
    by (auto simp: env_ok_def worldAB_def hubAB_def split: if_splits)
  have c0: "clients (hub worldAB) 0 = Some True" "clients (hub worldAB) 1 = Some True"
    by (simp_all add: worldAB_def hubAB_def)
  have f0: "\<not> full (send (heap (hub worldAB) 0))"
    by (simp add: worldAB_def hubAB_def full_def NewClient_def make_chan_def)
  have f1: "full (send (heap (hub worldAB) 1))"
    by (simp add: worldAB_def hubAB_def full_def full_chan_def)
  have b0: "buf (send (heap (hub worldAB) 0)) = []"
    by (simp add: worldAB_def hubAB_def NewClient_def make_chan_def)
  have b1: "buf (send (heap (hub worldAB) 1)) = replicate 256 ''x''"
    by (simp add: worldAB_def hubAB_def full_chan_def)
  from typing_frame_broadcast[OF u m inv d st, of 5]
  obtain w' where r: "handle_frame env_ok 0 worldAB ''T'' 5 = Inr w'" and dbw: "db w' = db worldAB"
    and cl: "calls w' = calls worldAB @
       [BroadcastCall \<lparr>Type = ''typing'',
             Payload = PJson (JObj
               [(''user_id'', JNum (userID (heap (hub worldAB) 0))),
                (''conversation_id'',
                 index [(''conversation_id'', JFloat 7), (''is_typing'', JBool True)] ''conversation_id''),
                (''is_typing'',
                 index [(''conversation_id'', JFloat 7), (''is_typing'', JBool True)] ''is_typing'')])\<rparr>]"
    and E: "\<forall>k. clients (hub worldAB) k \<noteq> None \<longrightarrow>
              (if full (send (heap (hub worldAB) k))
               then clients (hub w') k = None \<and> closed (send (heap (hub w') k)) \<and>
                    buf (send (heap (hub w') k)) = buf (send (heap (hub worldAB) k))
               else clients (hub w') k = clients (hub worldAB) k \<and>
                    \<not> closed (send (heap (hub w') k)) \<and>
                    buf (send (heap (hub w') k)) = buf (send (heap (hub worldAB) k)) @ [''typing''])"
    by blast
  have "db w' = []" using dbw by (simp add: worldAB_def)
  moreover have "calls w' = [BroadcastCall \<lparr>Type = ''typing'',
                        Payload = PJson (JObj [(''user_id'', JNum 1), (''conversation_id'', JFloat 7),
                                               (''is_typing'', JBool True)])\<rparr>]"
    using cl ix uid by (simp add: worldAB_def)
  moreover have "clients (hub w') 0 = Some True \<and> buf (send (heap (hub w') 0)) = [''typing'']"
    using E[rule_format, of 0] c0 f0 b0 by auto
  moreover have "clients (hub w') 1 = None \<and> buf (send (heap (hub w') 1)) = replicate 256 ''x''"
    using E[rule_format, of 1] c0 f1 b1 by auto
  ultimately show ?thesis using r inv by blast
qed

text \<open>
  The claim as written fails for a registered connection whose queue is full: user 2 is
  in the live set when user 1's typing frame arrives, and its queue is closed with what it
  held, without the envelope.
\<close>

theorem typing_frame_full_queue_counterexample:
  "clients (hub worldAB) 1 = Some True \<and>
   (\<exists>w'. handle_frame env_ok 0 worldAB ''T'' 5 = Inr w' \<and>
      clients (hub w') 1 = None \<and> closed (send (heap (hub w') 1)) \<and>
      buf (send (heap (hub w') 1)) = replicate 256 ''x'' \<and>
      buf (send (heap (hub w') 0)) = [''typing''])"
  by (simp add: handle_frame_def env_ok_def worldAB_def hubAB_def index_def BroadcastMessage_def
        marshal_const_def try_send_def evict_def close_chan_def set_send_def full_chan_def
        NewClient_def make_chan_def Let_def)

text \<open>
  C5, as amended. A request without the credential cookie, and a request whose credential
  the JWT library rejects (bad signature, expired, malformed: an error or a token that is
  not valid), are answered alike with 401 \<^verbatim>\<open>Unauthorized\<close>; a request whose valid
  credential names a user the user table does not have is answered with 404
  \<^verbatim>\<open>User not found\<close>. Neither status is a 2xx, and in each case the handler returns before
  the upgrade with the hub as it was: no client is built and none is registered.
\<close>

theorem admission_rejects:
  "(auth_token r = None \<longrightarrow>
      HandleWebSocket a marshal d h fresh r = Inr (HttpError 401 ''Unauthorized'', h)) \<and>
   (\<forall>cookie token err.
      auth_token r = Some cookie \<and> jwt_ParseWithClaims a cookie = (token, err) \<and>
      (err \<noteq> None \<or> \<not> Valid token) \<longrightarrow>
      HandleWebSocket a marshal d h fresh r = Inr (HttpError 401 ''Unauthorized'', h)) \<and>
   (\<forall>cookie token err.
      auth_token r = Some cookie \<and> jwt_ParseWithClaims a cookie = (token, None) \<and> Valid token \<and>
      GetUserByID a d (case index (Claims token) ''user_id'' of
                         JFloat f \<Rightarrow> int64_of_float64 f | _ \<Rightarrow> 0) = Inl err \<longrightarrow>
      HandleWebSocket a marshal d h fresh r = Inr (HttpError 404 ''User not found'', h)) \<and>
   (\<forall>code body h'.
      HandleWebSocket a marshal d h fresh r = Inr (HttpError code body, h') \<longrightarrow>
      \<not> (200 \<le> code \<and> code < 300) \<and> h' = h)"
proof (intro conjI allI impI)
  assume "auth_token r = None"
  then show "HandleWebSocket a marshal d h fresh r = Inr (HttpError 401 ''Unauthorized'', h)"
    by (simp add: HandleWebSocket_def StatusUnauthorized_def)
next
  fix cookie token err
  assume "auth_token r = Some cookie \<and> jwt_ParseWithClaims a cookie = (token, err) \<and>
      (err \<noteq> None \<or> \<not> Valid token)"
  then show "HandleWebSocket a marshal d h fresh r = Inr (HttpError 401 ''Unauthorized'', h)"
    by (auto simp: HandleWebSocket_def StatusUnauthorized_def)
next
  fix cookie token err
  assume "auth_token r = Some cookie \<and> jwt_ParseWithClaims a cookie = (token, None) \<and> Valid token \<and>
      GetUserByID a d (case index (Claims token) ''user_id'' of
                         JFloat f \<Rightarrow> int64_of_float64 f | _ \<Rightarrow> 0) = Inl err"
  then show "HandleWebSocket a marshal d h fresh r = Inr (HttpError 404 ''User not found'', h)"
    by (simp add: HandleWebSocket_def StatusNotFound_def Let_def)
next
  fix code body h'
  assume r: "HandleWebSocket a marshal d h fresh r = Inr (HttpError code body, h')"
  then have "(code = 401 \<or> code = 404) \<and> h' = h"
    by (auto simp: HandleWebSocket_def StatusUnauthorized_def StatusNotFound_def Let_def
             split: option.splits prod.splits if_splits sum.splits)
  then show "\<not> (200 \<le> code \<and> code < 300)" and "h' = h" by auto
qed

theorem admission_rejects_witness:
  "HandleWebSocket adm_demo marshal_const () (NewHub two_sessions) 0 (request None)
     = Inr (HttpError 401 ''Unauthorized'', NewHub two_sessions) \<and>
   HandleWebSocket adm_demo marshal_const () (NewHub two_sessions) 0 (request (Some ''old''))
     = Inr (HttpError 401 ''Unauthorized'', NewHub two_sessions) \<and>
   HandleWebSocket adm_demo marshal_const () (NewHub two_sessions) 0 (request (Some ''zed''))
     = Inr (HttpError 404 ''User not found'', NewHub two_sessions) \<and>
   \<not> (200 \<le> (404::nat) \<and> (404::nat) < 300)"
proof -
  note T = admission_rejects[of _ adm_demo marshal_const "()" "NewHub two_sessions" 0]
  have n: "auth_token (request None) = None" by (simp add: request_def)
  have o: "auth_token (request (Some ''old'')) = Some ''old'' \<and>
           jwt_ParseWithClaims adm_demo ''old''
             = (\<lparr>Valid = False, Claims = [(''user_id'', JFloat 1)]\<rparr>, Some TokenExpired) \<and>
           (Some TokenExpired \<noteq> None \<or> \<not> Valid \<lparr>Valid = False, Claims = [(''user_id'', JFloat 1)]\<rparr>)"
    by (simp add: request_def adm_demo_def)
  have z: "auth_token (request (Some ''zed'')) = Some ''zed'' \<and>
           jwt_ParseWithClaims adm_demo ''zed'' = (\<lparr>Valid = True, Claims = [(''user_id'', JFloat 9)]\<rparr>, None) \<and>
           Valid \<lparr>Valid = True, Claims = [(''user_id'', JFloat 9)]\<rparr> \<and>
           GetUserByID adm_demo ()
             (case index (Claims \<lparr>Valid = True, Claims = [(''user_id'', JFloat 9)]\<rparr>) ''user_id'' of
                JFloat f \<Rightarrow> int64_of_float64 f | _ \<Rightarrow> 0) = Inl ''sql: no rows in result set''"
    by (simp add: request_def adm_demo_def GetUserByID_def index_def int64_of_float64_def)
  have 1: "HandleWebSocket adm_demo marshal_const () (NewHub two_sessions) 0 (request None)
     = Inr (HttpError 401 ''Unauthorized'', NewHub two_sessions)"
    using T[of "request None"] n by blast
  have 2: "HandleWebSocket adm_demo marshal_const () (NewHub two_sessions) 0 (request (Some ''old''))
     = Inr (HttpError 401 ''Unauthorized'', NewHub two_sessions)"
    using T[of "request (Some ''old'')"] o by blast
  have 3: "HandleWebSocket adm_demo marshal_const () (NewHub two_sessions) 0 (request (Some ''zed''))
     = Inr (HttpError 404 ''User not found'', NewHub two_sessions)"
    using T[of "request (Some ''zed'')"] z by blast
  have 4: "\<not> (200 \<le> (404::nat) \<and> (404::nat) < 300)"
    using T[of "request (Some ''zed'')"] 3 by blast
  from 1 2 3 4 show ?thesis by blast
qed

text \<open>
  The claim as written fails where it asks for distinct responses: a missing credential, a
  forged one and an expired one get the same answer.
\<close>

theorem admission_same_response_counterexample:
  "HandleWebSocket adm_demo marshal_const () (NewHub two_sessions) 0 (request None)
     = Inr (HttpError 401 ''Unauthorized'', NewHub two_sessions) \<and>
   HandleWebSocket adm_demo marshal_const () (NewHub two_sessions) 0 (request (Some ''forged''))
     = Inr (HttpError 401 ''Unauthorized'', NewHub two_sessions) \<and>
   HandleWebSocket adm_demo marshal_const () (NewHub two_sessions) 0 (request (Some ''old''))
     = Inr (HttpError 401 ''Unauthorized'', NewHub two_sessions) \<and>
   jwt_ParseWithClaims adm_demo ''forged'' = (\<lparr>Valid = False, Claims = []\<rparr>, Some TokenSignatureInvalid) \<and>
   jwt_ParseWithClaims adm_demo ''old''
     = (\<lparr>Valid = False, Claims = [(''user_id'', JFloat 1)]\<rparr>, Some TokenExpired)"
  by (simp add: HandleWebSocket_def request_def StatusUnauthorized_def adm_demo_def)

text \<open>
  C9. The code at the schedule where the claim fails. User 2 (client \<open>1\<close>) is registered
  with a full queue. A \<^verbatim>\<open>SendToUser\<close> for user 2 looks the client up and finds the queue
  full in its \<^verbatim>\<open>select\<close>; before it takes the write lock, the hub loop handles the
  \<^verbatim>\<open>Unregister\<close> of that client (its inbound pump has exited) and closes the queue; the
  eviction then closes the queue a second time, and the Go runtime panics. If the
  unregister comes between the lookup and the \<^verbatim>\<open>select\<close>, the send on the closed queue
  panics. Only when the three sections run without the unregister in between is the queue
  closed once, the later unregister finding the client gone.
\<close>

theorem eviction_races_with_unregister:
  "interleave marshal_const 2 msg_hi (AtLookup, hubAB)
     [Deliver, Deliver, HubLoop (UnregisterEv 1), Deliver] = Inl CloseOfClosedChannel \<and>
   interleave marshal_const 2 msg_hi (AtLookup, hubAB)
     [Deliver, HubLoop (UnregisterEv 1), Deliver] = Inl SendOnClosedChannel \<and>
   (\<exists>h'. interleave marshal_const 2 msg_hi (AtLookup, hubAB)
           [Deliver, Deliver, Deliver, HubLoop (UnregisterEv 1)] = Inr (Returned None, h') \<and>
         closed (send (heap h' 1)) \<and> clients h' 1 = None)"
  by (simp add: SendToUser_step_def hubAB_def marshal_const_def try_send_def full_chan_def
        Unregister_def close_chan_def set_send_def evict_def Let_def)

end
